theory Spec2Isabelle
  imports Main "HOL-Library.Word" "HOL-Library.AList"
begin

section \<open>The metrics code as functions\<close>

subsection \<open>Go values\<close>

text \<open>
  The development follows \<^verbatim>\<open>pkg/monitoring/metrics/virt-controller/vmi_metrics.go\<close>.
  A Go \<^verbatim>\<open>int64\<close> is a 64-bit word: subtraction wraps and comparisons are signed.
  A Go run-time panic is a value of \<open>go_panic\<close>; a function that can panic returns
  \<open>go_panic + 'a\<close>.
\<close>

type_synonym int64 = "64 word"

datatype go_panic = IndexOutOfRange | NilDereference

text \<open>Indexing a slice: \<^verbatim>\<open>parts[i]\<close> panics when \<open>i\<close> is not below the length.\<close>

definition index :: "'a list \<Rightarrow> nat \<Rightarrow> go_panic + 'a" where
  "index xs i = (if i < length xs then Inr (xs ! i) else Inl IndexOutOfRange)"

text \<open>
  \<^verbatim>\<open>strings.Split(s, sep)\<close> for a separator of one byte: the substrings of \<open>s\<close> between
  the occurrences of \<open>sep\<close>, in order; a string without \<open>sep\<close> (the empty one too) gives
  one part.
\<close>

fun strings_Split :: "string \<Rightarrow> char \<Rightarrow> string list" where
  "strings_Split [] sep = [[]]"
| "strings_Split (c # cs) sep =
     (if c = sep then [] # strings_Split cs sep
      else (case strings_Split cs sep of
              [] \<Rightarrow> [[c]]
            | p # ps \<Rightarrow> (c # p) # ps))"

text \<open>
  \<^verbatim>\<open>
  func parseVolumeKey(key string) (string, string, string) {
      parts := strings.Split(key, "/")
      return parts[0], parts[1], parts[2]
  }
  \<close>
\<close>

definition parseVolumeKey :: "string \<Rightarrow> go_panic + (string \<times> string \<times> string)" where
  "parseVolumeKey key =
     (let parts = strings_Split key (CHR ''/'') in
      case index parts 0 of
        Inl e \<Rightarrow> Inl e
      | Inr p0 \<Rightarrow>
          (case index parts 1 of
             Inl e \<Rightarrow> Inl e
           | Inr p1 \<Rightarrow>
               (case index parts 2 of
                  Inl e \<Rightarrow> Inl e
                | Inr p2 \<Rightarrow> Inr (p0, p1, p2))))"

subsection \<open>The tracker's state\<close>

text \<open>
  \<^verbatim>\<open>
  type EphemeralStatus struct {
      timestamp int64
      confirmed bool
  }
  type VolumeTracker struct {
      sync.RWMutex
      // keys are namespace/vmi_name/volume_name
      volumes map[string]EphemeralStatus
  }
  \<close>
  The map \<^verbatim>\<open>volumes\<close> is an association list, so that the loops over it can be
  written as loops; a Go map holds a key once, which is \<open>distinct (map fst volumes)\<close>.
  Go ranges over a map in an unspecified order, the list fixes one. The lock is not
  part of this sequential model. The tracker starts empty
  (\<^verbatim>\<open>make(map[string]EphemeralStatus)\<close>).
\<close>

record EphemeralStatus =
  timestamp :: int64
  confirmed :: bool

type_synonym VolumeTracker = "(string \<times> EphemeralStatus) list"

definition volumeTracker :: VolumeTracker where
  "volumeTracker = []"

subsection \<open>The API objects, as far as the metrics code reads them\<close>

text \<open>
  The types of \<^verbatim>\<open>kubevirt.io/api/core/v1\<close> are declared outside this file. A record
  holds the fields that the metrics code reads; a pointer that the code tests against
  nil is an \<open>option\<close>. Both volume sources have a field \<^verbatim>\<open>Hotpluggable\<close>.
\<close>

record PersistentVolumeClaimVolumeSource =
  pvc_Hotpluggable :: bool

record DataVolumeSource =
  dv_Hotpluggable :: bool

record VolumeSource =
  PersistentVolumeClaim :: "PersistentVolumeClaimVolumeSource option"
  DataVolume :: "DataVolumeSource option"

record Volume =
  Name :: string
  VolumeSource :: VolumeSource

text \<open>
  \<open>vmi_Volumes\<close> is \<^verbatim>\<open>vmi.Spec.Volumes\<close> and \<open>vm_Volumes\<close> is
  \<^verbatim>\<open>vm.Spec.Template.Spec.Volumes\<close>, the desired-state template.
\<close>

record VirtualMachineInstance =
  vmi_Namespace :: string
  vmi_Name :: string
  vmi_Volumes :: "Volume list"

record VirtualMachine =
  vm_Volumes :: "Volume list"

text \<open>
  \<^verbatim>\<open>
  func isHotplugVolume(volume v1.Volume) bool {
      return (volume.VolumeSource.PersistentVolumeClaim != nil &&
          volume.VolumeSource.PersistentVolumeClaim.Hotpluggable) ||
          (volume.VolumeSource.DataVolume != nil && volume.VolumeSource.DataVolume.Hotpluggable)
  }
  \<close>
\<close>

definition isHotplugVolume :: "Volume \<Rightarrow> bool" where
  "isHotplugVolume volume =
     ((case PersistentVolumeClaim (VolumeSource volume) of
         None \<Rightarrow> False
       | Some pvc \<Rightarrow> pvc_Hotpluggable pvc) \<or>
      (case DataVolume (VolumeSource volume) of
         None \<Rightarrow> False
       | Some dv \<Rightarrow> dv_Hotpluggable dv))"

subsection \<open>UpdateEphemeralVolumeCount\<close>

text \<open>
  The first loop fills \<^verbatim>\<open>vmVolumeMap\<close> with the template's volumes by name.
\<close>

fun vmVolumeMap_loop :: "Volume list \<Rightarrow> (string \<rightharpoonup> Volume) \<Rightarrow> (string \<rightharpoonup> Volume)" where
  "vmVolumeMap_loop [] vmVolumeMap = vmVolumeMap"
| "vmVolumeMap_loop (volume # rest) vmVolumeMap =
     vmVolumeMap_loop rest (vmVolumeMap(Name volume \<mapsto> volume))"

text \<open>
  \<^verbatim>\<open>trackerKey := vmi.Namespace + "/" + vmi.Name + "/" + volume.Name\<close>
\<close>

definition trackerKey :: "VirtualMachineInstance \<Rightarrow> Volume \<Rightarrow> string" where
  "trackerKey vmi volume = vmi_Namespace vmi @ ''/'' @ vmi_Name vmi @ ''/'' @ Name volume"

text \<open>
  One pass of the loop over \<^verbatim>\<open>vmi.Spec.Volumes\<close> (lines 95 to 125). The state is the
  pair of \<^verbatim>\<open>vmiVolumeMap\<close> and \<^verbatim>\<open>volumeTracker.volumes\<close>. \<open>now\<close> is what
  \<^verbatim>\<open>time.Now().Unix()\<close> returns. The model gives one call one reading of the clock:
  every \<^verbatim>\<open>time.Now().Unix()\<close> of a call returns \<open>now\<close>, the one \<open>now\<close> that the
  spec's algorithm speaks of.
\<close>

definition hotplug_body ::
  "int64 \<Rightarrow> VirtualMachineInstance \<Rightarrow> (string \<rightharpoonup> Volume) \<Rightarrow> Volume \<Rightarrow>
   (string \<rightharpoonup> Volume) \<times> VolumeTracker \<Rightarrow> (string \<rightharpoonup> Volume) \<times> VolumeTracker" where
  "hotplug_body now vmi vmVolumeMap volume st =
     (case st of (vmiVolumeMap, volumes) \<Rightarrow>
        if \<not> isHotplugVolume volume then (vmiVolumeMap, volumes)
        else
          (let vmiVolumeMap' = vmiVolumeMap(Name volume \<mapsto> volume);
               key = trackerKey vmi volume
           in if vmVolumeMap (Name volume) = None then
                (if map_of volumes key \<noteq> None then (vmiVolumeMap', volumes)
                 else (vmiVolumeMap',
                       AList.update key \<lparr>timestamp = now, confirmed = False\<rparr> volumes))
              else
                (case map_of volumes key of
                   None \<Rightarrow> (vmiVolumeMap', volumes)
                 | Some volumeStatus \<Rightarrow>
                     if now - timestamp volumeStatus \<le>s 60
                     then (vmiVolumeMap', AList.delete key volumes)
                     else (vmiVolumeMap', volumes))))"

fun hotplug_loop ::
  "int64 \<Rightarrow> VirtualMachineInstance \<Rightarrow> (string \<rightharpoonup> Volume) \<Rightarrow> Volume list \<Rightarrow>
   (string \<rightharpoonup> Volume) \<times> VolumeTracker \<Rightarrow> (string \<rightharpoonup> Volume) \<times> VolumeTracker" where
  "hotplug_loop now vmi vmVolumeMap [] st = st"
| "hotplug_loop now vmi vmVolumeMap (volume # rest) st =
     hotplug_loop now vmi vmVolumeMap rest (hotplug_body now vmi vmVolumeMap volume st)"

text \<open>
  One pass of the loop over \<^verbatim>\<open>volumeTracker.volumes\<close> (lines 129 to 148). The loop
  deletes or rewrites only the entry it is visiting, so it visits the entries the map
  held when the loop began, each with the value it had then. A key with fewer than
  three parts makes \<^verbatim>\<open>parseVolumeKey\<close> panic, which ends the call.
\<close>

definition sweep_body ::
  "int64 \<Rightarrow> (string \<rightharpoonup> Volume) \<Rightarrow> string \<times> EphemeralStatus \<Rightarrow> VolumeTracker \<Rightarrow>
   go_panic + VolumeTracker" where
  "sweep_body now vmiVolumeMap entry volumes =
     (case entry of (key, volumeStatus) \<Rightarrow>
        (case parseVolumeKey key of
           Inl e \<Rightarrow> Inl e
         | Inr (namespace, vmiName, volumeName) \<Rightarrow>
             if vmiVolumeMap volumeName = None then Inr (AList.delete key volumes)
             else if 2 <s now - timestamp volumeStatus
             then Inr (AList.update key (volumeStatus\<lparr>confirmed := True\<rparr>) volumes)
             else Inr volumes))"

fun sweep_loop ::
  "int64 \<Rightarrow> (string \<rightharpoonup> Volume) \<Rightarrow> (string \<times> EphemeralStatus) list \<Rightarrow> VolumeTracker \<Rightarrow>
   go_panic + VolumeTracker" where
  "sweep_loop now vmiVolumeMap [] volumes = Inr volumes"
| "sweep_loop now vmiVolumeMap (entry # rest) volumes =
     (case sweep_body now vmiVolumeMap entry volumes of
        Inl e \<Rightarrow> Inl e
      | Inr volumes' \<Rightarrow> sweep_loop now vmiVolumeMap rest volumes')"

text \<open>
  The whole call. A nil \<^verbatim>\<open>vmi\<close> or \<^verbatim>\<open>vm\<close> returns at once and leaves the tracker
  as it was.
\<close>

definition UpdateEphemeralVolumeCount ::
  "int64 \<Rightarrow> VirtualMachineInstance option \<Rightarrow> VirtualMachine option \<Rightarrow> VolumeTracker \<Rightarrow>
   go_panic + VolumeTracker" where
  "UpdateEphemeralVolumeCount now vmi vm volumes =
     (case vmi of
        None \<Rightarrow> Inr volumes
      | Some vmi' \<Rightarrow>
          (case vm of
             None \<Rightarrow> Inr volumes
           | Some vm' \<Rightarrow>
               (let vmVolumeMap = vmVolumeMap_loop (vm_Volumes vm') Map.empty in
                case hotplug_loop now vmi' vmVolumeMap (vmi_Volumes vmi') (Map.empty, volumes) of
                  (vmiVolumeMap, volumes1) \<Rightarrow> sweep_loop now vmiVolumeMap volumes1 volumes1)))"

subsection \<open>EphemeralVolumeMetricsCallback\<close>

text \<open>
  A \<^verbatim>\<open>float64\<close> is represented by the number it stands for. The only ones this file
  produces are whole numbers: the constants 1 and -1 and conversions of an \<^verbatim>\<open>int64\<close>.
\<close>

type_synonym float64 = int

record CollectorResult =
  Metric :: string
  Labels :: "string list"
  Value :: float64

definition vmiEphemeralHotplugVolumeTotal :: string where
  "vmiEphemeralHotplugVolumeTotal = ''kubevirt_vmi_ephemeral_hotplug_volume_total''"

fun collect_loop ::
  "(string \<times> EphemeralStatus) list \<Rightarrow> CollectorResult list \<Rightarrow> go_panic + CollectorResult list" where
  "collect_loop [] results = Inr results"
| "collect_loop ((key, volumeStatus) # rest) results =
     (if \<not> confirmed volumeStatus then collect_loop rest results
      else
        (case parseVolumeKey key of
           Inl e \<Rightarrow> Inl e
         | Inr (namespace, vmiName, volumeName) \<Rightarrow>
             collect_loop rest
               (results @
                [\<lparr>Metric = vmiEphemeralHotplugVolumeTotal,
                  Labels = [namespace, vmiName, volumeName],
                  Value = 1\<rparr>])))"

text \<open>The callback returns the tracker it read together with the results.\<close>

definition EphemeralVolumeMetricsCallback ::
  "VolumeTracker \<Rightarrow> go_panic + (VolumeTracker \<times> CollectorResult list)" where
  "EphemeralVolumeMetricsCallback volumes =
     (case collect_loop volumes [] of
        Inl e \<Rightarrow> Inl e
      | Inr results \<Rightarrow> Inr (volumes, results))"

subsection \<open>The launcher memory overhead gauge\<close>

text \<open>
  A Go \<^verbatim>\<open>error\<close> that is not nil. The code of this file makes none itself; the one
  value is the condition that the spec names for a read of a label pair never set.
\<close>

datatype error = NotRecorded

type_synonym GaugeVec = "string \<times> string \<rightharpoonup> float64"

text \<open>
  Modelled from the spec: the gauge vector \<^verbatim>\<open>vmiLauncherMemoryOverhead\<close> as
  \<^verbatim>\<open>operatormetrics.NewGaugeVec\<close> returns it. That constructor is library code that the
  source files do not hold; the spec speaks of label pairs for which no sample was
  ever set, so a new vector holds no sample.
\<close>

definition vmiLauncherMemoryOverhead :: GaugeVec where
  "vmiLauncherMemoryOverhead = Map.empty"

text \<open>
  Modelled from the spec: \<^verbatim>\<open>Set\<close> on the gauge vector behind
  \<^verbatim>\<open>vmiLauncherMemoryOverhead\<close> (\<^verbatim>\<open>operatormetrics.NewGaugeVec\<close> and its
  \<^verbatim>\<open>WithLabelValues\<close>), library code that the source files do not hold. The spec:
  set is an unconditional overwrite of the per-instance gauge, with no validation of the
  value.
\<close>

definition gauge_Set :: "GaugeVec \<Rightarrow> string \<Rightarrow> string \<Rightarrow> float64 \<Rightarrow> GaugeVec" where
  "gauge_Set vec namespace name v = vec((namespace, name) \<mapsto> v)"

text \<open>
  \<^verbatim>\<open>WithLabelValues(namespace, name).Write(dto)\<close> on the same gauge vector: the value
  that \<^verbatim>\<open>Write\<close> puts into \<^verbatim>\<open>dto.Gauge.Value\<close>, or its error. The vector is library
  code that the source files do not hold: \<^verbatim>\<open>operatormetrics.GaugeVec\<close> is the gauge
  vector of the Prometheus client (the imports of lines 26 and 27). There
  \<^verbatim>\<open>WithLabelValues\<close> returns the gauge of the label pair and, when the pair is used
  for the first time, creates it with the value 0; \<^verbatim>\<open>Write\<close> of a gauge gives its
  value and a nil error. So a pair without a sample reads as 0, and no read fails. The
  gauge that such a read creates holds 0, which is what the pair reads as without it;
  the model leaves the vector as it was.
\<close>

definition gauge_Write :: "GaugeVec \<Rightarrow> string \<Rightarrow> string \<Rightarrow> error + float64" where
  "gauge_Write vec namespace name =
     (case vec (namespace, name) of
        None \<Rightarrow> Inr 0
      | Some v \<Rightarrow> Inr v)"

text \<open>
  The conversion \<^verbatim>\<open>float64(x)\<close> of an \<^verbatim>\<open>int64\<close>: the nearest number with a
  significand of 53 bits, a tie going to the even significand. \<open>bit_length m\<close> is the
  number of bits of \<open>m\<close>; \<open>round_half_even e m\<close> rounds \<open>m\<close> to a multiple of \<open>2 ^ e\<close>.
\<close>

function bit_length :: "int \<Rightarrow> nat" where
  "bit_length n = (if n \<le> 0 then 0 else Suc (bit_length (n div 2)))"
  by pat_completeness auto
termination
  by (relation "measure nat") auto

declare bit_length.simps [simp del]

definition round_half_even :: "nat \<Rightarrow> int \<Rightarrow> int" where
  "round_half_even e m =
     (let q = m div 2 ^ e; r = m mod 2 ^ e in
      if 2 * r < 2 ^ e then q * 2 ^ e
      else if 2 ^ e < 2 * r then (q + 1) * 2 ^ e
      else if even q then q * 2 ^ e
      else (q + 1) * 2 ^ e)"

definition float64_of_int64 :: "int64 \<Rightarrow> float64" where
  "float64_of_int64 x =
     (let m = \<bar>sint x\<bar>; e = bit_length m - 53 in
      if sint x < 0 then - round_half_even e m else round_half_even e m)"

text \<open>
  \<^verbatim>\<open>
  func SetVmiLaucherMemoryOverhead(vmi *v1.VirtualMachineInstance, memoryOverhead resource.Quantity) {
      vmiLauncherMemoryOverhead.
          WithLabelValues(vmi.Namespace, vmi.Name).
          Set(float64(memoryOverhead.Value()))
  }
  \<close>
  The argument \<open>memoryOverhead\<close> of the model is the \<^verbatim>\<open>int64\<close> that
  \<^verbatim>\<open>memoryOverhead.Value()\<close> returns. A nil \<^verbatim>\<open>vmi\<close> is a nil pointer dereference.
\<close>

definition SetVmiLaucherMemoryOverhead ::
  "VirtualMachineInstance option \<Rightarrow> int64 \<Rightarrow> GaugeVec \<Rightarrow> go_panic + GaugeVec" where
  "SetVmiLaucherMemoryOverhead vmi memoryOverhead vec =
     (case vmi of
        None \<Rightarrow> Inl NilDereference
      | Some vmi' \<Rightarrow>
          Inr (gauge_Set vec (vmi_Namespace vmi') (vmi_Name vmi') (float64_of_int64 memoryOverhead)))"

text \<open>
  \<^verbatim>\<open>
  func GetVmiLaucherMemoryOverhead(vmi *v1.VirtualMachineInstance) (float64, error) {
      dto := &ioprometheusclient.Metric{}
      if err := vmiLauncherMemoryOverhead.WithLabelValues(vmi.Namespace, vmi.Name).Write(dto); err != nil {
          return -1, err
      }
      return *dto.Gauge.Value, nil
  }
  \<close>
  The result is the pair of the value and the error, \<open>None\<close> for \<^verbatim>\<open>nil\<close>.
\<close>

definition GetVmiLaucherMemoryOverhead ::
  "VirtualMachineInstance option \<Rightarrow> GaugeVec \<Rightarrow> go_panic + (float64 \<times> error option)" where
  "GetVmiLaucherMemoryOverhead vmi vec =
     (case vmi of
        None \<Rightarrow> Inl NilDereference
      | Some vmi' \<Rightarrow>
          (case gauge_Write vec (vmi_Namespace vmi') (vmi_Name vmi') of
             Inl err \<Rightarrow> Inr (- 1, Some err)
           | Inr v \<Rightarrow> Inr (v, None)))"

subsection \<open>Sequences of calls\<close>

text \<open>
  A reconciler calls \<^verbatim>\<open>UpdateEphemeralVolumeCount\<close> again and again; a call is its
  clock reading and its two arguments. A panic ends the run.
\<close>

type_synonym observation = "int64 \<times> VirtualMachineInstance option \<times> VirtualMachine option"

fun run :: "observation list \<Rightarrow> VolumeTracker \<Rightarrow> go_panic + VolumeTracker" where
  "run [] volumes = Inr volumes"
| "run ((now, vmi, vm) # calls) volumes =
     (case UpdateEphemeralVolumeCount now vmi vm volumes of
        Inl e \<Rightarrow> Inl e
      | Inr volumes' \<Rightarrow> run calls volumes')"

text \<open>A run of calls of \<^verbatim>\<open>SetVmiLaucherMemoryOverhead\<close>; a panic ends it.\<close>

fun set_calls ::
  "(VirtualMachineInstance option \<times> int64) list \<Rightarrow> GaugeVec \<Rightarrow> go_panic + GaugeVec" where
  "set_calls [] vec = Inr vec"
| "set_calls ((vmi, memoryOverhead) # calls) vec =
     (case SetVmiLaucherMemoryOverhead vmi memoryOverhead vec of
        Inl e \<Rightarrow> Inl e
      | Inr vec' \<Rightarrow> set_calls calls vec')"

section \<open>Notions used in the statements\<close>

text \<open>
  What every tracker built by the code satisfies: it is a map (a key is held once), and
  no key makes \<^verbatim>\<open>parseVolumeKey\<close> panic.
\<close>

definition tracker_inv :: "VolumeTracker \<Rightarrow> bool" where
  "tracker_inv volumes =
     (distinct (map fst volumes) \<and>
      (\<forall>key\<in>fst ` set volumes. parseVolumeKey key \<noteq> Inl IndexOutOfRange))"

text \<open>
  A call detects a key when its instance holds a hotplug volume with that key that the
  template does not declare: the case in which the first loop stores a record.
\<close>

definition detects ::
  "VirtualMachineInstance option \<Rightarrow> VirtualMachine option \<Rightarrow> string \<Rightarrow> bool" where
  "detects vmi vm key =
     (case vmi of
        None \<Rightarrow> False
      | Some i \<Rightarrow>
          (case vm of
             None \<Rightarrow> False
           | Some m \<Rightarrow>
               (\<exists>volume\<in>set (vmi_Volumes i).
                  isHotplugVolume volume \<and> Name volume \<notin> Name ` set (vm_Volumes m) \<and>
                  trackerKey i volume = key)))"

text \<open>Every key of the tracker splits into exactly three parts.\<close>

definition three_part_keys :: "VolumeTracker \<Rightarrow> bool" where
  "three_part_keys volumes =
     (\<forall>key\<in>fst ` set volumes. length (strings_Split key (CHR ''/'')) = 3)"

text \<open>
  The callback, run on this tracker, returns a result with these three labels.
\<close>

definition reported :: "string \<Rightarrow> string \<Rightarrow> string \<Rightarrow> VolumeTracker \<Rightarrow> bool" where
  "reported namespace vmiName volumeName volumes =
     (case EphemeralVolumeMetricsCallback volumes of
        Inl e \<Rightarrow> False
      | Inr (volumes', results) \<Rightarrow> [namespace, vmiName, volumeName] \<in> Labels ` set results)"

text \<open>The label pair of a call, when its instance is not nil.\<close>

definition labels_of :: "VirtualMachineInstance option \<Rightarrow> (string \<times> string) option" where
  "labels_of vmi = map_option (\<lambda>vmi'. (vmi_Namespace vmi', vmi_Name vmi')) vmi"

subsection \<open>Example objects\<close>

text \<open>
  A hotplug volume backed by a data volume; instance \<open>ns/a\<close> with the hotplug volume
  \<open>v\<close>; instance \<open>ns/b\<close> without volumes; a template without volumes and one that
  declares \<open>v\<close>.
\<close>

definition hotplugDataVolume :: "string \<Rightarrow> Volume" where
  "hotplugDataVolume n =
     \<lparr>Name = n,
      VolumeSource = \<lparr>PersistentVolumeClaim = None,
                      DataVolume = Some \<lparr>dv_Hotpluggable = True\<rparr>\<rparr>\<rparr>"

definition vmi_a :: VirtualMachineInstance where
  "vmi_a = \<lparr>vmi_Namespace = ''ns'', vmi_Name = ''a'', vmi_Volumes = [hotplugDataVolume ''v'']\<rparr>"

definition vmi_b :: VirtualMachineInstance where
  "vmi_b = \<lparr>vmi_Namespace = ''ns'', vmi_Name = ''b'', vmi_Volumes = []\<rparr>"

definition vm_undeclared :: VirtualMachine where
  "vm_undeclared = \<lparr>vm_Volumes = []\<rparr>"

definition vm_declared :: VirtualMachine where
  "vm_declared = \<lparr>vm_Volumes = [hotplugDataVolume ''v'']\<rparr>"

subsection \<open>What one call does to one key\<close>

text \<open>
  These functions are used in the proofs only. \<open>hotplug_effect\<close> is what the first
  loop does to the record of a live hotplug volume's key, \<open>sweep_effect\<close> what the loop
  over the tracker does to a record; \<open>live_hotplug\<close> says that \<^verbatim>\<open>vmiVolumeMap\<close> holds
  a name; \<open>after_hotplug\<close> is the tracker between the two loops; \<open>result_for\<close> is the
  result the callback appends for a key.
\<close>

definition hotplug_effect :: "int64 \<Rightarrow> bool \<Rightarrow> EphemeralStatus option \<Rightarrow> EphemeralStatus option" where
  "hotplug_effect now declared old =
     (if \<not> declared then
        (case old of None \<Rightarrow> Some \<lparr>timestamp = now, confirmed = False\<rparr> | Some s \<Rightarrow> Some s)
      else
        (case old of None \<Rightarrow> None
         | Some s \<Rightarrow> if now - timestamp s \<le>s 60 then None else Some s))"

definition sweep_effect ::
  "int64 \<Rightarrow> (string \<rightharpoonup> Volume) \<Rightarrow> string \<Rightarrow> EphemeralStatus \<Rightarrow> EphemeralStatus option" where
  "sweep_effect now m k s =
     (case parseVolumeKey k of
        Inl e \<Rightarrow> None
      | Inr (namespace, vmiName, volumeName) \<Rightarrow>
          if m volumeName = None then None
          else if 2 <s now - timestamp s then Some (s\<lparr>confirmed := True\<rparr>)
          else Some s)"

definition live_hotplug :: "VirtualMachineInstance \<Rightarrow> string \<Rightarrow> bool" where
  "live_hotplug vmi n = (\<exists>v\<in>set (vmi_Volumes vmi). isHotplugVolume v \<and> Name v = n)"

definition after_hotplug ::
  "int64 \<Rightarrow> VirtualMachineInstance \<Rightarrow> VirtualMachine \<Rightarrow> VolumeTracker \<Rightarrow> VolumeTracker" where
  "after_hotplug now vmi vm vols =
     snd (hotplug_loop now vmi (vmVolumeMap_loop (vm_Volumes vm) Map.empty) (vmi_Volumes vmi)
            (Map.empty, vols))"

definition result_for :: "string \<Rightarrow> CollectorResult" where
  "result_for key =
     \<lparr>Metric = vmiEphemeralHotplugVolumeTotal,
      Labels = (case parseVolumeKey key of
                  Inl e \<Rightarrow> []
                | Inr (namespace, vmiName, volumeName) \<Rightarrow> [namespace, vmiName, volumeName]),
      Value = 1\<rparr>"

section \<open>Splitting keys\<close>

lemma strings_Split_not_Nil: "strings_Split s sep \<noteq> []"
  by (induction s) (auto split: list.splits)

lemma strings_Split_no_sep: "sep \<notin> set a \<Longrightarrow> strings_Split a sep = [a]"
  by (induction a) auto

lemma strings_Split_append:
  "sep \<notin> set a \<Longrightarrow> strings_Split (a @ sep # rest) sep = a # strings_Split rest sep"
  by (induction a) auto

lemma length_strings_Split: "length (strings_Split s sep) = Suc (count_list s sep)"
proof (induction s)
  case Nil
  show ?case by simp
next
  case (Cons c cs)
  then show ?case
    by (cases "strings_Split cs sep") auto
qed

lemma strings_Split_Cons:
  "strings_Split s sep = p # ps \<Longrightarrow>
   sep \<notin> set p \<and> (ps = [] \<longrightarrow> s = p) \<and>
   (ps \<noteq> [] \<longrightarrow> (\<exists>rest. s = p @ sep # rest \<and> strings_Split rest sep = ps))"
proof (induction s arbitrary: p ps)
  case Nil
  then show ?case by simp
next
  case (Cons c cs)
  show ?case
  proof (cases "c = sep")
    case True
    with Cons.prems show ?thesis
      by (auto simp: strings_Split_not_Nil)
  next
    case False
    obtain q qs where q: "strings_Split cs sep = q # qs"
      by (cases "strings_Split cs sep") (auto simp: strings_Split_not_Nil)
    with False Cons.prems have p: "p = c # q" "ps = qs" by auto
    from Cons.IH [OF q] False p show ?thesis by auto
  qed
qed

lemma strings_Split_three:
  assumes "strings_Split key sep = [a, b, c]"
  shows "key = a @ sep # b @ sep # c"
proof -
  from strings_Split_Cons [OF assms] obtain r1 where
    r1: "key = a @ sep # r1" "strings_Split r1 sep = [b, c]" by auto
  from strings_Split_Cons [OF r1(2)] obtain r2 where
    r2: "r1 = b @ sep # r2" "strings_Split r2 sep = [c]" by auto
  from strings_Split_Cons [OF r2(2)] have "r2 = c" by simp
  with r1 r2 show ?thesis by simp
qed

lemma parseVolumeKey_parts:
  "parseVolumeKey key =
     (case strings_Split key (CHR ''/'') of
        p0 # p1 # p2 # ps \<Rightarrow> Inr (p0, p1, p2)
      | _ \<Rightarrow> Inl IndexOutOfRange)"
  by (auto simp: parseVolumeKey_def index_def Let_def split: list.splits)

lemma parseVolumeKey_panics_iff:
  "(parseVolumeKey key = Inl e) = (e = IndexOutOfRange \<and> count_list key (CHR ''/'') < 2)"
proof -
  have "length (strings_Split key (CHR ''/'')) = Suc (count_list key (CHR ''/''))"
    by (rule length_strings_Split)
  then show ?thesis
    by (auto simp: parseVolumeKey_parts split: list.splits)
qed

lemma parseVolumeKey_returns_iff:
  "(\<exists>t. parseVolumeKey key = Inr t) = (2 \<le> count_list key (CHR ''/''))"
proof (cases "parseVolumeKey key")
  case (Inl e)
  then show ?thesis using parseVolumeKey_panics_iff [of key e] by auto
next
  case (Inr t)
  then have "\<exists>t. parseVolumeKey key = Inr t" by blast
  moreover from Inr have "\<not> count_list key (CHR ''/'') < 2"
    using parseVolumeKey_panics_iff [of key IndexOutOfRange] by simp
  ultimately show ?thesis by simp
qed

lemma parses_iff: "(parseVolumeKey key \<noteq> Inl IndexOutOfRange) = (2 \<le> count_list key (CHR ''/''))"
  using parseVolumeKey_panics_iff [of key IndexOutOfRange] by auto

lemma count_trackerKey: "2 \<le> count_list (trackerKey vmi volume) (CHR ''/'')"
  by (simp add: trackerKey_def)

lemma trackerKey_eq_iff: "(trackerKey vmi v = trackerKey vmi w) = (Name v = Name w)"
  by (simp add: trackerKey_def)

lemma parseVolumeKey_trackerKey:
  assumes "CHR ''/'' \<notin> set (vmi_Namespace vmi)" and "CHR ''/'' \<notin> set (vmi_Name vmi)"
    and "CHR ''/'' \<notin> set (Name volume)"
  shows "parseVolumeKey (trackerKey vmi volume) = Inr (vmi_Namespace vmi, vmi_Name vmi, Name volume)"
  using assms
  by (simp add: parseVolumeKey_parts trackerKey_def strings_Split_append strings_Split_no_sep)

lemma three_part_key_unique:
  assumes "length (strings_Split key (CHR ''/'')) = 3"
    and "parseVolumeKey key = Inr (a, b, c)"
  shows "key = a @ ''/'' @ b @ ''/'' @ c"
proof -
  from assms(1) obtain x y z where xyz: "strings_Split key (CHR ''/'') = [x, y, z]"
    by (auto simp: numeral_3_eq_3 length_Suc_conv)
  with assms(2) have "x = a" "y = b" "z = c" by (simp_all add: parseVolumeKey_parts)
  with strings_Split_three [OF xyz] show ?thesis by simp
qed

lemma trackerKey_three_parts:
  assumes "CHR ''/'' \<notin> set (vmi_Namespace vmi)" and "CHR ''/'' \<notin> set (vmi_Name vmi)"
    and "CHR ''/'' \<notin> set (Name volume)"
  shows "length (strings_Split (trackerKey vmi volume) (CHR ''/'')) = 3"
  using assms
  by (simp add: trackerKey_def strings_Split_append strings_Split_no_sep)

section \<open>The loop over the instance's volumes\<close>

lemma vmVolumeMap_loop_dom:
  "(vmVolumeMap_loop vs m n \<noteq> None) = (m n \<noteq> None \<or> n \<in> Name ` set vs)"
  by (induction vs arbitrary: m) auto

lemma vmVolumeMap_declared:
  "(vmVolumeMap_loop vs Map.empty n = None) = (n \<notin> Name ` set vs)"
  using vmVolumeMap_loop_dom [of vs Map.empty n] by auto

lemma hotplug_effect_idem:
  "hotplug_effect now d (hotplug_effect now d old) = hotplug_effect now d old"
  by (simp add: hotplug_effect_def split: option.splits)

lemma hotplug_body_fst:
  "fst (hotplug_body now vmi D v (m, vols)) n =
     (if isHotplugVolume v \<and> Name v = n then Some v else m n)"
  by (auto simp: hotplug_body_def Let_def split: option.splits)

lemma hotplug_body_map_of:
  "map_of (snd (hotplug_body now vmi D v (m, vols))) k =
     (if isHotplugVolume v \<and> trackerKey vmi v = k
      then hotplug_effect now (D (Name v) \<noteq> None) (map_of vols k)
      else map_of vols k)"
  by (auto simp: hotplug_body_def hotplug_effect_def Let_def update_conv' delete_conv'
        split: option.splits)

lemma hotplug_body_distinct:
  "distinct (map fst vols) \<Longrightarrow> distinct (map fst (snd (hotplug_body now vmi D v (m, vols))))"
  by (auto simp: hotplug_body_def Let_def distinct_update distinct_delete split: option.splits)

lemma hotplug_loop_fst:
  "(fst (hotplug_loop now vmi D vs (m, vols)) n \<noteq> None) =
     (m n \<noteq> None \<or> (\<exists>v\<in>set vs. isHotplugVolume v \<and> Name v = n))"
proof (induction vs arbitrary: m vols)
  case Nil
  show ?case by simp
next
  case (Cons v vs)
  obtain m' vols' where b: "hotplug_body now vmi D v (m, vols) = (m', vols')"
    by (cases "hotplug_body now vmi D v (m, vols)")
  have m': "m' n = (if isHotplugVolume v \<and> Name v = n then Some v else m n)"
    using hotplug_body_fst [of now vmi D v m vols n] b by simp
  show ?case
    using Cons.IH [of m' vols'] b m' by auto
qed

lemma hotplug_loop_distinct:
  "distinct (map fst vols) \<Longrightarrow> distinct (map fst (snd (hotplug_loop now vmi D vs (m, vols))))"
proof (induction vs arbitrary: m vols)
  case Nil
  then show ?case by simp
next
  case (Cons v vs)
  obtain m' vols' where b: "hotplug_body now vmi D v (m, vols) = (m', vols')"
    by (cases "hotplug_body now vmi D v (m, vols)")
  with hotplug_body_distinct [OF Cons.prems, of now vmi D v m]
  have "distinct (map fst vols')" by simp
  from Cons.IH [OF this] b show ?case by simp
qed

lemma hotplug_loop_untouched:
  "\<forall>v\<in>set vs. isHotplugVolume v \<longrightarrow> trackerKey vmi v \<noteq> k \<Longrightarrow>
   map_of (snd (hotplug_loop now vmi D vs (m, vols))) k = map_of vols k"
proof (induction vs arbitrary: m vols)
  case Nil
  show ?case by simp
next
  case (Cons v vs)
  obtain m' vols' where b: "hotplug_body now vmi D v (m, vols) = (m', vols')"
    by (cases "hotplug_body now vmi D v (m, vols)")
  have "map_of vols' k = map_of vols k"
    using hotplug_body_map_of [of now vmi D v m vols k] b Cons.prems by auto
  moreover have "map_of (snd (hotplug_loop now vmi D vs (m', vols'))) k = map_of vols' k"
    using Cons.IH [of m' vols'] Cons.prems by simp
  ultimately show ?case using b by simp
qed

lemma hotplug_loop_touched:
  "w \<in> set vs \<Longrightarrow> isHotplugVolume w \<Longrightarrow>
   map_of (snd (hotplug_loop now vmi D vs (m, vols))) (trackerKey vmi w) =
     hotplug_effect now (D (Name w) \<noteq> None) (map_of vols (trackerKey vmi w))"
proof (induction vs arbitrary: m vols w)
  case Nil
  then show ?case by simp
next
  case (Cons v vs)
  let ?k = "trackerKey vmi w"
  let ?d = "D (Name w) \<noteq> None"
  obtain m' vols' where b: "hotplug_body now vmi D v (m, vols) = (m', vols')"
    by (cases "hotplug_body now vmi D v (m, vols)")
  have step: "map_of vols' ?k =
      (if isHotplugVolume v \<and> Name v = Name w then hotplug_effect now ?d (map_of vols ?k)
       else map_of vols ?k)"
    using hotplug_body_map_of [of now vmi D v m vols ?k] b
    by (auto simp: trackerKey_eq_iff)
  show ?case
  proof (cases "w \<in> set vs")
    case True
    from Cons.IH [OF True Cons.prems(2), of m' vols']
    have "map_of (snd (hotplug_loop now vmi D vs (m', vols'))) ?k =
        hotplug_effect now ?d (map_of vols' ?k)" .
    with step b show ?thesis
      by (simp add: hotplug_effect_idem)
  next
    case False
    with Cons.prems have vw: "v = w" by simp
    show ?thesis
    proof (cases "\<exists>u\<in>set vs. isHotplugVolume u \<and> trackerKey vmi u = ?k")
      case True
      then obtain u where u: "u \<in> set vs" "isHotplugVolume u" "trackerKey vmi u = ?k"
        by blast
      then have nu: "Name u = Name w" by (simp add: trackerKey_eq_iff)
      from Cons.IH [OF u(1) u(2), of m' vols'] u(3) nu
      have "map_of (snd (hotplug_loop now vmi D vs (m', vols'))) ?k =
          hotplug_effect now ?d (map_of vols' ?k)" by simp
      with step b show ?thesis
        by (simp add: hotplug_effect_idem)
    next
      case False
      then have "map_of (snd (hotplug_loop now vmi D vs (m', vols'))) ?k = map_of vols' ?k"
        by (intro hotplug_loop_untouched) blast
      with step b vw Cons.prems show ?thesis by simp
    qed
  qed
qed

section \<open>The loop over the tracker\<close>

lemma sweep_body_map_of:
  assumes "sweep_body now m (key, s) vols = Inr vols'" and "map_of vols key = Some s"
  shows "map_of vols' k = (if k = key then sweep_effect now m key s else map_of vols k)"
  using assms
  by (auto simp: sweep_body_def sweep_effect_def update_conv' delete_conv'
        split: sum.splits if_splits)

lemma sweep_body_distinct:
  "sweep_body now m e vols = Inr vols' \<Longrightarrow> distinct (map fst vols) \<Longrightarrow> distinct (map fst vols')"
  by (auto simp: sweep_body_def distinct_update distinct_delete split: sum.splits if_splits prod.splits)

lemma sweep_body_returns:
  "2 \<le> count_list (fst e) (CHR ''/'') \<Longrightarrow> \<exists>vols'. sweep_body now m e vols = Inr vols'"
proof -
  assume "2 \<le> count_list (fst e) (CHR ''/'')"
  then obtain t where "parseVolumeKey (fst e) = Inr t"
    using parseVolumeKey_returns_iff [of "fst e"] by blast
  then show ?thesis
    by (cases e; cases t) (simp add: sweep_body_def)
qed

lemma sweep_loop_map_of:
  assumes "distinct (map fst es)"
    and "\<forall>(key, s)\<in>set es. map_of vols key = Some s"
    and "sweep_loop now m es vols = Inr vols'"
  shows "map_of vols' k =
     (case map_of es k of None \<Rightarrow> map_of vols k | Some s \<Rightarrow> sweep_effect now m k s)"
  using assms
proof (induction es arbitrary: vols)
  case Nil
  then show ?case by simp
next
  case (Cons e es)
  obtain key s where e: "e = (key, s)" by (cases e)
  from Cons.prems(3) e obtain vols1 where
    b: "sweep_body now m (key, s) vols = Inr vols1" and
    l: "sweep_loop now m es vols1 = Inr vols'"
    by (auto split: sum.splits)
  from Cons.prems(2) e have ks: "map_of vols key = Some s" by simp
  note step = sweep_body_map_of [OF b ks]
  from Cons.prems(1) e have d: "distinct (map fst es)" and notin: "key \<notin> fst ` set es"
    by auto
  have "\<forall>(key', s')\<in>set es. map_of vols1 key' = Some s'"
  proof (clarify)
    fix key' s' assume in_es: "(key', s') \<in> set es"
    with notin have "key' \<noteq> key" by force
    moreover from in_es Cons.prems(2) have "map_of vols key' = Some s'" by auto
    ultimately show "map_of vols1 key' = Some s'" using step [of key'] by simp
  qed
  from Cons.IH [OF d this l]
  have ih: "map_of vols' k =
      (case map_of es k of None \<Rightarrow> map_of vols1 k | Some s \<Rightarrow> sweep_effect now m k s)" .
  show ?case
  proof (cases "k = key")
    case True
    with notin have "map_of es k = None"
      by (simp add: map_of_eq_None_iff)
    with ih step [of k] True e show ?thesis by simp
  next
    case False
    with ih step [of k] e show ?thesis by (simp split: option.splits)
  qed
qed

lemma sweep_loop_distinct:
  "sweep_loop now m es vols = Inr vols' \<Longrightarrow> distinct (map fst vols) \<Longrightarrow> distinct (map fst vols')"
proof (induction es arbitrary: vols)
  case Nil
  then show ?case by simp
next
  case (Cons e es)
  from Cons.prems(1) obtain vols1 where
    b: "sweep_body now m e vols = Inr vols1" and
    l: "sweep_loop now m es vols1 = Inr vols'"
    by (auto split: sum.splits)
  from sweep_body_distinct [OF b Cons.prems(2)] Cons.IH [OF l] show ?case by simp
qed

lemma sweep_loop_returns:
  "\<forall>k\<in>fst ` set es. 2 \<le> count_list k (CHR ''/'') \<Longrightarrow> \<exists>vols'. sweep_loop now m es vols = Inr vols'"
proof (induction es arbitrary: vols)
  case Nil
  show ?case by simp
next
  case (Cons e es)
  from Cons.prems have "2 \<le> count_list (fst e) (CHR ''/'')" by simp
  from sweep_body_returns [OF this] obtain vols1 where "sweep_body now m e vols = Inr vols1"
    by blast
  moreover from Cons.prems Cons.IH [of vols1] obtain vols' where
    "sweep_loop now m es vols1 = Inr vols'" by auto
  ultimately show ?case by simp
qed

lemma sweep_loop_panics:
  "sweep_loop now m es vols = Inl e \<Longrightarrow> \<exists>k\<in>fst ` set es. count_list k (CHR ''/'') < 2"
proof (induction es arbitrary: vols)
  case Nil
  then show ?case by simp
next
  case (Cons x es)
  show ?case
  proof (cases "sweep_body now m x vols")
    case (Inl e')
    then have "parseVolumeKey (fst x) = Inl e'"
      by (cases x) (auto simp: sweep_body_def split: sum.splits if_splits)
    then show ?thesis using parseVolumeKey_panics_iff [of "fst x" e'] by simp
  next
    case (Inr vols1)
    with Cons.prems have "sweep_loop now m es vols1 = Inl e" by simp
    from Cons.IH [OF this] show ?thesis by auto
  qed
qed

text \<open>The sweep over the whole map.\<close>

lemma sweep_all_map_of:
  assumes "distinct (map fst vols)" and "sweep_loop now m vols vols = Inr vols'"
  shows "map_of vols' k =
     (case map_of vols k of None \<Rightarrow> None | Some s \<Rightarrow> sweep_effect now m k s)"
proof -
  from assms(1) have "\<forall>(key, s)\<in>set vols. map_of vols key = Some s" by auto
  from sweep_loop_map_of [OF assms(1) this assms(2), of k] show ?thesis
    by (simp split: option.splits)
qed

lemma sless_2_after_60: "\<not> (d::int64) \<le>s 60 \<Longrightarrow> 2 <s d"
  by (simp add: word_sle_eq word_sless_alt)

section \<open>The whole call\<close>

lemma UpdateEphemeralVolumeCount_nil:
  "UpdateEphemeralVolumeCount now None vm vols = Inr vols"
  "UpdateEphemeralVolumeCount now vmi None vols = Inr vols"
  by (simp_all add: UpdateEphemeralVolumeCount_def split: option.splits)

lemma UpdateEphemeralVolumeCount_loops:
  "UpdateEphemeralVolumeCount now (Some vmi) (Some vm) vols =
     sweep_loop now
       (fst (hotplug_loop now vmi (vmVolumeMap_loop (vm_Volumes vm) Map.empty) (vmi_Volumes vmi)
              (Map.empty, vols)))
       (snd (hotplug_loop now vmi (vmVolumeMap_loop (vm_Volumes vm) Map.empty) (vmi_Volumes vmi)
              (Map.empty, vols)))
       (snd (hotplug_loop now vmi (vmVolumeMap_loop (vm_Volumes vm) Map.empty) (vmi_Volumes vmi)
              (Map.empty, vols)))"
  by (simp add: UpdateEphemeralVolumeCount_def Let_def split: prod.splits)

lemma after_hotplug_untouched:
  "\<forall>v\<in>set (vmi_Volumes vmi). isHotplugVolume v \<longrightarrow> trackerKey vmi v \<noteq> k \<Longrightarrow>
   map_of (after_hotplug now vmi vm vols) k = map_of vols k"
  unfolding after_hotplug_def by (rule hotplug_loop_untouched)

lemma after_hotplug_touched:
  "w \<in> set (vmi_Volumes vmi) \<Longrightarrow> isHotplugVolume w \<Longrightarrow>
   map_of (after_hotplug now vmi vm vols) (trackerKey vmi w) =
     hotplug_effect now (Name w \<in> Name ` set (vm_Volumes vm)) (map_of vols (trackerKey vmi w))"
  unfolding after_hotplug_def
  using hotplug_loop_touched [of w "vmi_Volumes vmi" now vmi
      "vmVolumeMap_loop (vm_Volumes vm) Map.empty" Map.empty vols]
    vmVolumeMap_declared [of "vm_Volumes vm" "Name w"]
  by simp

lemma after_hotplug_distinct:
  "distinct (map fst vols) \<Longrightarrow> distinct (map fst (after_hotplug now vmi vm vols))"
  unfolding after_hotplug_def by (rule hotplug_loop_distinct)

lemma UpdateEphemeralVolumeCount_map_of:
  assumes "distinct (map fst vols)"
    and "UpdateEphemeralVolumeCount now (Some vmi) (Some vm) vols = Inr vols'"
  shows "map_of vols' k =
     (case map_of (after_hotplug now vmi vm vols) k of
        None \<Rightarrow> None
      | Some s \<Rightarrow>
          (case parseVolumeKey k of
             Inl e \<Rightarrow> None
           | Inr (namespace, vmiName, volumeName) \<Rightarrow>
               if \<not> live_hotplug vmi volumeName then None
               else if 2 <s now - timestamp s then Some (s\<lparr>confirmed := True\<rparr>)
               else Some s))"
proof -
  let ?h = "hotplug_loop now vmi (vmVolumeMap_loop (vm_Volumes vm) Map.empty) (vmi_Volumes vmi)
              (Map.empty, vols)"
  have sw: "sweep_loop now (fst ?h) (after_hotplug now vmi vm vols) (after_hotplug now vmi vm vols)
      = Inr vols'"
    using assms(2) by (simp add: UpdateEphemeralVolumeCount_loops after_hotplug_def)
  have m: "(fst ?h n = None) = (\<not> live_hotplug vmi n)" for n
    using hotplug_loop_fst [of now vmi "vmVolumeMap_loop (vm_Volumes vm) Map.empty"
        "vmi_Volumes vmi" Map.empty vols n]
    by (auto simp: live_hotplug_def)
  from sweep_all_map_of [OF after_hotplug_distinct [OF assms(1)] sw, of k]
  show ?thesis
    by (simp add: sweep_effect_def m split: option.splits sum.splits prod.splits)
qed

lemma after_hotplug_cases:
  "map_of (after_hotplug now vmi vm vols) k = map_of vols k \<or>
   (\<exists>w\<in>set (vmi_Volumes vmi). isHotplugVolume w \<and> trackerKey vmi w = k \<and>
      map_of (after_hotplug now vmi vm vols) k =
        hotplug_effect now (Name w \<in> Name ` set (vm_Volumes vm)) (map_of vols k))"
proof (cases "\<forall>v\<in>set (vmi_Volumes vmi). isHotplugVolume v \<longrightarrow> trackerKey vmi v \<noteq> k")
  case True
  from after_hotplug_untouched [OF this] show ?thesis by simp
next
  case False
  then obtain w where w: "w \<in> set (vmi_Volumes vmi)" "isHotplugVolume w" "trackerKey vmi w = k"
    by blast
  from after_hotplug_touched [OF w(1) w(2), of now vm vols] w show ?thesis by blast
qed

lemma after_hotplug_keys:
  assumes "map_of (after_hotplug now vmi vm vols) k \<noteq> None"
  shows "map_of vols k \<noteq> None \<or> (\<exists>w. trackerKey vmi w = k)"
  using after_hotplug_cases [of now vmi vm vols k] assms by auto

lemma after_hotplug_old:
  assumes "map_of vols k = Some s" and "map_of (after_hotplug now vmi vm vols) k = Some s1"
  shows "s1 = s"
  using after_hotplug_cases [of now vmi vm vols k] assms
  by (auto simp: hotplug_effect_def split: if_splits)

lemma after_hotplug_new:
  assumes "map_of vols k = None" and "map_of (after_hotplug now vmi vm vols) k = Some s1"
  shows "s1 = \<lparr>timestamp = now, confirmed = False\<rparr> \<and>
         (\<exists>w\<in>set (vmi_Volumes vmi). isHotplugVolume w \<and> trackerKey vmi w = k \<and>
            Name w \<notin> Name ` set (vm_Volumes vm))"
  using after_hotplug_cases [of now vmi vm vols k] assms
  by (auto simp: hotplug_effect_def split: if_splits)

lemma UpdateEphemeralVolumeCount_survivor:
  assumes "distinct (map fst vols)"
    and "UpdateEphemeralVolumeCount now (Some vmi) (Some vm) vols = Inr vols'"
    and "map_of vols' k = Some s'"
  shows "\<exists>s1. map_of (after_hotplug now vmi vm vols) k = Some s1 \<and>
           s' = (if 2 <s now - timestamp s1 then s1\<lparr>confirmed := True\<rparr> else s1)"
  using UpdateEphemeralVolumeCount_map_of [OF assms(1) assms(2), of k] assms(3)
  by (auto split: option.splits sum.splits if_splits)

lemma UpdateEphemeralVolumeCount_kept:
  assumes "distinct (map fst vols)"
    and "UpdateEphemeralVolumeCount now (Some vmi) (Some vm) vols = Inr vols'"
    and "map_of (after_hotplug now vmi vm vols) k = Some s1"
    and "parseVolumeKey k = Inr (namespace, vmiName, volumeName)"
    and "live_hotplug vmi volumeName"
  shows "map_of vols' k = Some (if 2 <s now - timestamp s1 then s1\<lparr>confirmed := True\<rparr> else s1)"
  using UpdateEphemeralVolumeCount_map_of [OF assms(1) assms(2), of k] assms(3-5)
  by simp

lemma UpdateEphemeralVolumeCount_absent:
  assumes "distinct (map fst vols)"
    and "UpdateEphemeralVolumeCount now (Some vmi) (Some vm) vols = Inr vols'"
    and "map_of (after_hotplug now vmi vm vols) k = None"
  shows "map_of vols' k = None"
  using UpdateEphemeralVolumeCount_map_of [OF assms(1) assms(2), of k] assms(3)
  by simp

subsection \<open>The call returns on every tracker it can build\<close>


lemma UpdateEphemeralVolumeCount_inv:
  assumes "tracker_inv vols"
  shows "\<exists>vols'. UpdateEphemeralVolumeCount now vmi vm vols = Inr vols' \<and> tracker_inv vols'"
proof (cases vmi)
  case None
  with assms show ?thesis by (simp add: UpdateEphemeralVolumeCount_nil)
next
  case (Some i)
  note vmi = this
  show ?thesis
  proof (cases vm)
    case None
    with assms show ?thesis by (simp add: UpdateEphemeralVolumeCount_nil)
  next
    case (Some m)
    let ?v1 = "after_hotplug now i m vols"
    let ?M = "fst (hotplug_loop now i (vmVolumeMap_loop (vm_Volumes m) Map.empty) (vmi_Volumes i)
              (Map.empty, vols))"
    from assms have d: "distinct (map fst vols)" by (simp add: tracker_inv_def)
    have d1: "distinct (map fst ?v1)" by (rule after_hotplug_distinct [OF d])
    have k1: "\<forall>k\<in>fst ` set ?v1. 2 \<le> count_list k (CHR ''/'')"
    proof
      fix k assume "k \<in> fst ` set ?v1"
      then have "map_of ?v1 k \<noteq> None" by (simp add: map_of_eq_None_iff)
      from after_hotplug_keys [OF this] show "2 \<le> count_list k (CHR ''/'')"
      proof
        assume "map_of vols k \<noteq> None"
        then have "k \<in> fst ` set vols" by (simp add: map_of_eq_None_iff)
        with assms show ?thesis by (auto simp: tracker_inv_def parses_iff)
      next
        assume "\<exists>w. trackerKey i w = k"
        then show ?thesis using count_trackerKey by blast
      qed
    qed
    from sweep_loop_returns [OF k1, of now ?M ?v1] obtain vols' where
      sw: "sweep_loop now ?M ?v1 ?v1 = Inr vols'" by blast
    then have u: "UpdateEphemeralVolumeCount now (Some i) (Some m) vols = Inr vols'"
      by (simp add: UpdateEphemeralVolumeCount_loops after_hotplug_def)
    have d': "distinct (map fst vols')" by (rule sweep_loop_distinct [OF sw d1])
    have "\<forall>k\<in>fst ` set vols'. parseVolumeKey k \<noteq> Inl IndexOutOfRange"
    proof
      fix k assume "k \<in> fst ` set vols'"
      then have "map_of vols' k \<noteq> None" by (simp add: map_of_eq_None_iff)
      with UpdateEphemeralVolumeCount_map_of [OF d u, of k]
      have "map_of ?v1 k \<noteq> None" by (auto split: option.splits)
      then have "k \<in> fst ` set ?v1" by (simp add: map_of_eq_None_iff)
      with k1 show "parseVolumeKey k \<noteq> Inl IndexOutOfRange" by (auto simp: parses_iff)
    qed
    with d' u vmi Some show ?thesis by (simp add: tracker_inv_def)
  qed
qed


lemma no_detection_step:
  assumes "distinct (map fst vols)" and "map_of vols k = None" and "\<not> detects vmi vm k"
    and "UpdateEphemeralVolumeCount now vmi vm vols = Inr vols'"
  shows "map_of vols' k = None"
proof (cases "vmi = None \<or> vm = None")
  case True
  then have "UpdateEphemeralVolumeCount now vmi vm vols = Inr vols"
    by (auto simp: UpdateEphemeralVolumeCount_nil)
  with assms show ?thesis by simp
next
  case False
  then obtain i m where im: "vmi = Some i" "vm = Some m" by auto
  have "map_of (after_hotplug now i m vols) k = None"
  proof (rule ccontr)
    assume "map_of (after_hotplug now i m vols) k \<noteq> None"
    then obtain s1 where "map_of (after_hotplug now i m vols) k = Some s1" by blast
    from after_hotplug_new [OF assms(2) this] assms(3) im show False
      by (auto simp: detects_def)
  qed
  from UpdateEphemeralVolumeCount_absent [OF assms(1) assms(4) [unfolded im] this]
  show ?thesis .
qed

lemma no_detection_run:
  assumes "tracker_inv vols" and "map_of vols k = None"
    and "\<forall>(now, vmi, vm)\<in>set calls. \<not> detects vmi vm k"
  shows "\<exists>vols'. run calls vols = Inr vols' \<and> tracker_inv vols' \<and> map_of vols' k = None"
  using assms
proof (induction calls arbitrary: vols)
  case Nil
  then show ?case by simp
next
  case (Cons c calls)
  obtain now vmi vm where c: "c = (now, vmi, vm)" by (cases c)
  from UpdateEphemeralVolumeCount_inv [OF Cons.prems(1), of now vmi vm] obtain vols1 where
    u: "UpdateEphemeralVolumeCount now vmi vm vols = Inr vols1" and i1: "tracker_inv vols1"
    by blast
  from Cons.prems(1) have d: "distinct (map fst vols)" by (simp add: tracker_inv_def)
  from Cons.prems(3) c have nd: "\<not> detects vmi vm k" by simp
  from no_detection_step [OF d Cons.prems(2) nd u] have n1: "map_of vols1 k = None" .
  from Cons.prems(3) have "\<forall>(now, vmi, vm)\<in>set calls. \<not> detects vmi vm k" by simp
  from Cons.IH [OF i1 n1 this] u c show ?case by simp
qed

text \<open>Keys keep three parts when the names of a call hold no \<open>/\<close>.\<close>

lemma three_part_keys_kept:
  assumes "distinct (map fst vols)" and "three_part_keys vols"
    and "CHR ''/'' \<notin> set (vmi_Namespace vmi)" and "CHR ''/'' \<notin> set (vmi_Name vmi)"
    and "\<forall>volume\<in>set (vmi_Volumes vmi). isHotplugVolume volume \<longrightarrow> CHR ''/'' \<notin> set (Name volume)"
    and "UpdateEphemeralVolumeCount now (Some vmi) (Some vm) vols = Inr vols'"
  shows "three_part_keys vols'"
  unfolding three_part_keys_def
proof
  fix k assume "k \<in> fst ` set vols'"
  then obtain s' where "map_of vols' k = Some s'"
    by (metis map_of_eq_None_iff not_None_eq)
  from UpdateEphemeralVolumeCount_survivor [OF assms(1) assms(6) this]
  obtain s1 where s1: "map_of (after_hotplug now vmi vm vols) k = Some s1" by blast
  show "length (strings_Split k (CHR ''/'')) = 3"
  proof (cases "map_of vols k")
    case (Some s)
    then have "k \<in> fst ` set vols" by (metis map_of_eq_None_iff option.distinct(1))
    with assms(2) show ?thesis by (auto simp: three_part_keys_def)
  next
    case None
    from after_hotplug_new [OF None s1] obtain w where
      w: "w \<in> set (vmi_Volumes vmi)" "isHotplugVolume w" "trackerKey vmi w = k" by blast
    with assms(5) have "CHR ''/'' \<notin> set (Name w)" by blast
    from trackerKey_three_parts [OF assms(3) assms(4) this] w(3) show ?thesis by simp
  qed
qed

section \<open>The callback\<close>

lemma collect_loop_results:
  assumes "\<forall>key\<in>fst ` set es. parseVolumeKey key \<noteq> Inl IndexOutOfRange"
  shows "collect_loop es acc =
           Inr (acc @ map (\<lambda>(key, s). result_for key) (filter (\<lambda>(key, s). confirmed s) es))"
  using assms
proof (induction es arbitrary: acc)
  case Nil
  show ?case by simp
next
  case (Cons e es)
  obtain key s where e: "e = (key, s)" by (cases e)
  from Cons.prems have rest: "\<forall>key\<in>fst ` set es. parseVolumeKey key \<noteq> Inl IndexOutOfRange"
    by simp
  show ?case
  proof (cases "confirmed s")
    case False
    with Cons.IH [OF rest, of acc] e show ?thesis by simp
  next
    case True
    from Cons.prems e have "parseVolumeKey key \<noteq> Inl IndexOutOfRange" by simp
    then obtain a b c where p: "parseVolumeKey key = Inr (a, b, c)"
      using parseVolumeKey_panics_iff [of key] by (cases "parseVolumeKey key") auto
    then have r: "result_for key =
        \<lparr>Metric = vmiEphemeralHotplugVolumeTotal, Labels = [a, b, c], Value = 1\<rparr>"
      by (simp add: result_for_def)
    from Cons.IH [OF rest, of "acc @ [result_for key]"] e True p r show ?thesis by simp
  qed
qed

lemma callback_results:
  assumes "tracker_inv vols"
  shows "EphemeralVolumeMetricsCallback vols =
           Inr (vols, map (\<lambda>(key, s). result_for key) (filter (\<lambda>(key, s). confirmed s) vols))"
proof -
  from assms have p: "\<forall>key\<in>fst ` set vols. parseVolumeKey key \<noteq> Inl IndexOutOfRange"
    by (simp add: tracker_inv_def)
  from collect_loop_results [OF p, of "[]"] show ?thesis
    by (simp add: EphemeralVolumeMetricsCallback_def)
qed

lemma reported_iff:
  assumes "tracker_inv vols"
  shows "reported a b c vols =
     (\<exists>key s. map_of vols key = Some s \<and> confirmed s \<and> parseVolumeKey key = Inr (a, b, c))"
proof -
  from assms have d: "distinct (map fst vols)"
    and p: "\<forall>key\<in>fst ` set vols. parseVolumeKey key \<noteq> Inl IndexOutOfRange"
    by (simp_all add: tracker_inv_def)
  have lab: "(Labels (result_for key) = [a, b, c]) = (parseVolumeKey key = Inr (a, b, c))"
    for key
    by (cases "parseVolumeKey key") (auto simp: result_for_def)
  have "reported a b c vols =
      (\<exists>(key, s)\<in>set vols. confirmed s \<and> Labels (result_for key) = [a, b, c])"
    unfolding reported_def callback_results [OF assms]
    by (force simp: image_iff)
  also have "\<dots> = (\<exists>key s. map_of vols key = Some s \<and> confirmed s \<and>
      parseVolumeKey key = Inr (a, b, c))"
    using d by (auto simp: lab)
  finally show ?thesis .
qed

lemma not_reported:
  assumes "tracker_inv vols" and "three_part_keys vols"
    and "map_of vols (a @ ''/'' @ b @ ''/'' @ c) = None"
  shows "\<not> reported a b c vols"
proof
  assume "reported a b c vols"
  with reported_iff [OF assms(1)] obtain key s where
    ks: "map_of vols key = Some s" "parseVolumeKey key = Inr (a, b, c)" by blast
  from ks(1) have "key \<in> fst ` set vols"
    by (metis map_of_eq_None_iff option.distinct(1))
  with assms(2) have "length (strings_Split key (CHR ''/'')) = 3"
    by (auto simp: three_part_keys_def)
  from three_part_key_unique [OF this ks(2)] ks(1) assms(3) show False by simp
qed

section \<open>The gauge\<close>

lemma bit_length_bound: "m < 2 ^ k \<Longrightarrow> bit_length m \<le> k"
proof (induction k arbitrary: m)
  case 0
  then show ?case by (simp add: bit_length.simps)
next
  case (Suc k)
  show ?case
  proof (cases "m \<le> 0")
    case True
    then show ?thesis by (simp add: bit_length.simps)
  next
    case False
    from Suc.prems have "m div 2 < 2 ^ k" by simp
    from Suc.IH [OF this] False show ?thesis
      by (subst bit_length.simps) simp
  qed
qed

lemma bit_length_power: "bit_length (2 ^ k) = Suc k"
proof (induction k)
  case 0
  show ?case by (simp add: bit_length.simps [of 1] bit_length.simps [of 0])
next
  case (Suc k)
  have "bit_length (2 ^ Suc k) = Suc (bit_length (2 ^ Suc k div 2))"
    by (subst bit_length.simps) simp
  with Suc show ?case by simp
qed

lemma round_half_even_exact:
  assumes "0 \<le> m" and "m \<le> 2 ^ 53"
  shows "round_half_even (bit_length m - 53) m = m"
proof (cases "m = 2 ^ 53")
  case True
  have "bit_length m = 54" using bit_length_power [of 53] True by simp
  then show ?thesis
    by (simp add: round_half_even_def True)
next
  case False
  with assms have "m < 2 ^ 53" by simp
  from bit_length_bound [OF this] show ?thesis
    by (simp add: round_half_even_def)
qed

lemma float64_of_int64_exact:
  assumes "0 \<le> sint x" and "sint x \<le> 2 ^ 53"
  shows "float64_of_int64 x = sint x"
proof -
  from assms have "0 \<le> \<bar>sint x\<bar>" "\<bar>sint x\<bar> \<le> 2 ^ 53" by simp_all
  from round_half_even_exact [OF this] assms(1) show ?thesis
    by (simp add: float64_of_int64_def Let_def)
qed

lemma set_calls_other:
  assumes "set_calls calls vec = Inr vec'"
    and "\<forall>(vmi, x)\<in>set calls. labels_of vmi \<noteq> Some l"
  shows "vec' l = vec l"
  using assms
proof (induction calls arbitrary: vec)
  case Nil
  then show ?case by simp
next
  case (Cons c calls)
  obtain vmi x where c: "c = (vmi, x)" by (cases c)
  from Cons.prems(1) c obtain vec1 where
    s: "SetVmiLaucherMemoryOverhead vmi x vec = Inr vec1" and r: "set_calls calls vec1 = Inr vec'"
    by (auto split: sum.splits)
  from Cons.prems(2) c have "labels_of vmi \<noteq> Some l" by simp
  with s have "vec1 l = vec l"
    by (auto simp: SetVmiLaucherMemoryOverhead_def gauge_Set_def labels_of_def split: option.splits)
  moreover from Cons.prems(2) have "\<forall>(vmi, x)\<in>set calls. labels_of vmi \<noteq> Some l" by simp
  from Cons.IH [OF r this] have "vec' l = vec1 l" .
  ultimately show ?case by simp
qed


lemma set_then_get:
  assumes "SetVmiLaucherMemoryOverhead (Some vmi) x vec0 = Inr vec1"
    and "set_calls others vec1 = Inr vec"
    and "\<forall>(vmi', y)\<in>set others. labels_of vmi' \<noteq> labels_of (Some vmi)"
  shows "GetVmiLaucherMemoryOverhead (Some vmi) vec = Inr (float64_of_int64 x, None)"
proof -
  let ?l = "(vmi_Namespace vmi, vmi_Name vmi)"
  from assms(3) have "\<forall>(vmi', y)\<in>set others. labels_of vmi' \<noteq> Some ?l"
    by (simp add: labels_of_def)
  from set_calls_other [OF assms(2) this] have "vec ?l = vec1 ?l" .
  also from assms(1) have "vec1 ?l = Some (float64_of_int64 x)"
    by (auto simp: SetVmiLaucherMemoryOverhead_def gauge_Set_def)
  finally show ?thesis
    by (simp add: GetVmiLaucherMemoryOverhead_def gauge_Write_def)
qed

section \<open>The claims\<close>

text \<open>
  C1, where the code departs from it. The loop over the tracker looks a key's volume name
  up among the hotplug volumes of the instance of this call and ignores the key's
  namespace and instance name: a record of instance \<open>ns/a\<close>, whose volume is still
  live, hotplug and undeclared there, is deleted by a call for instance \<open>ns/b\<close>.
\<close>

theorem sweep_deletes_record_of_other_instance:
  "vmi_Namespace vmi_a = ''ns'' \<and> vmi_Name vmi_a = ''a'' \<and>
   vmi_Volumes vmi_a = [hotplugDataVolume ''v''] \<and>
   isHotplugVolume (hotplugDataVolume ''v'') \<and> vm_Volumes vm_undeclared = [] \<and>
   UpdateEphemeralVolumeCount 0 (Some vmi_a) (Some vm_undeclared) volumeTracker =
     Inr [(''ns/a/v'', \<lparr>timestamp = 0, confirmed = False\<rparr>)] \<and>
   vmi_Namespace vmi_b = ''ns'' \<and> vmi_Name vmi_b = ''b'' \<and> vmi_Volumes vmi_b = [] \<and>
   UpdateEphemeralVolumeCount 1 (Some vmi_b) (Some vm_undeclared)
     [(''ns/a/v'', \<lparr>timestamp = 0, confirmed = False\<rparr>)] = Inr []"
  by code_simp

text \<open>
  C2. A call of UpdateEphemeralVolumeCount with both arguments set leaves every record
  it keeps, whose \<open>now - timestamp\<close> is above 2, confirmed. No call, whatever its
  arguments, resets \<open>confirmed\<close> or moves the timestamp of a record it keeps.
\<close>

theorem confirmed_after_threshold:
  assumes "distinct (map fst volumes)"
    and "UpdateEphemeralVolumeCount now vmi vm volumes = Inr volumes'"
    and "map_of volumes' key = Some status'"
  shows "(vmi \<noteq> None \<and> vm \<noteq> None \<and> 2 <s now - timestamp status' \<longrightarrow> confirmed status') \<and>
         (\<forall>status. map_of volumes key = Some status \<longrightarrow>
            timestamp status' = timestamp status \<and> (confirmed status \<longrightarrow> confirmed status'))"
proof (cases "vmi = None \<or> vm = None")
  case True
  then have "UpdateEphemeralVolumeCount now vmi vm volumes = Inr volumes"
    by (auto simp: UpdateEphemeralVolumeCount_nil)
  with assms True show ?thesis by auto
next
  case False
  then obtain i m where im: "vmi = Some i" "vm = Some m" by auto
  from UpdateEphemeralVolumeCount_survivor [OF assms(1) assms(2) [unfolded im] assms(3)]
  obtain s1 where s1: "map_of (after_hotplug now i m volumes) key = Some s1"
    and s': "status' = (if 2 <s now - timestamp s1 then s1\<lparr>confirmed := True\<rparr> else s1)"
    by blast
  have a: "2 <s now - timestamp status' \<longrightarrow> confirmed status'"
    using s' by (simp split: if_splits)
  have b: "timestamp status' = timestamp status \<and> (confirmed status \<longrightarrow> confirmed status')"
    if "map_of volumes key = Some status" for status
  proof -
    from after_hotplug_old [OF that s1] have "s1 = status" .
    with s' show ?thesis by (simp split: if_splits)
  qed
  from a b show ?thesis by blast
qed

theorem confirmed_after_threshold_witness:
  "distinct (map fst [(''ns/a/v'', \<lparr>timestamp = 0, confirmed = False\<rparr>)]) \<and>
   UpdateEphemeralVolumeCount 10 (Some vmi_a) (Some vm_undeclared)
     [(''ns/a/v'', \<lparr>timestamp = 0, confirmed = False\<rparr>)] =
     Inr [(''ns/a/v'', \<lparr>timestamp = 0, confirmed = True\<rparr>)] \<and>
   (2::int64) <s 10 - 0 \<and>
   confirmed \<lparr>timestamp = 0, confirmed = True\<rparr>"
proof -
  have u: "UpdateEphemeralVolumeCount 10 (Some vmi_a) (Some vm_undeclared)
     [(''ns/a/v'', \<lparr>timestamp = 0, confirmed = False\<rparr>)] =
     Inr [(''ns/a/v'', \<lparr>timestamp = 0, confirmed = True\<rparr>)]"
    by code_simp
  have d: "distinct (map fst [(''ns/a/v'', \<lparr>timestamp = 0::int64, confirmed = False\<rparr>)])"
    by simp
  have t: "(2::int64) <s 10 - 0" by (simp add: word_sless_alt)
  from confirmed_after_threshold [OF d u, of "''ns/a/v''" "\<lparr>timestamp = 0, confirmed = True\<rparr>"] t
  have "confirmed \<lparr>timestamp = 0::int64, confirmed = True\<rparr>" by simp
  with d u t show ?thesis by blast
qed

text \<open>
  C3, as the code has it. A call finds a record for a live hotplug volume that the
  template now declares. If \<open>now - timestamp\<close> is at most 60, the call deletes the
  record, and the key stays without a record through every later run of calls none of
  which sees the volume live, hotplug and undeclared again; a tracker without that
  record, whose keys all have three parts, reports no sample with the volume's labels.
  If \<open>now - timestamp\<close> is above 60 (and the names hold no \<open>/\<close>), the call keeps the
  record and its timestamp and leaves it confirmed.
\<close>

theorem grace_window_reclassification:
  assumes "tracker_inv volumes"
    and "volume \<in> set (vmi_Volumes vmi)"
    and "isHotplugVolume volume"
    and "Name volume \<in> Name ` set (vm_Volumes vm)"
    and "map_of volumes (trackerKey vmi volume) = Some status"
  shows "\<exists>volumes'.
           UpdateEphemeralVolumeCount now (Some vmi) (Some vm) volumes = Inr volumes' \<and>
           (now - timestamp status \<le>s 60 \<longrightarrow>
              map_of volumes' (trackerKey vmi volume) = None \<and>
              (\<forall>calls.
                 (\<forall>(now', vmi', vm')\<in>set calls. \<not> detects vmi' vm' (trackerKey vmi volume)) \<longrightarrow>
                 (\<exists>volumes''.
                    run calls volumes' = Inr volumes'' \<and>
                    map_of volumes'' (trackerKey vmi volume) = None \<and>
                    (three_part_keys volumes'' \<longrightarrow>
                       \<not> reported (vmi_Namespace vmi) (vmi_Name vmi) (Name volume) volumes'')))) \<and>
           (\<not> now - timestamp status \<le>s 60 \<and> CHR ''/'' \<notin> set (vmi_Namespace vmi) \<and>
            CHR ''/'' \<notin> set (vmi_Name vmi) \<and> CHR ''/'' \<notin> set (Name volume) \<longrightarrow>
              map_of volumes' (trackerKey vmi volume) = Some (status\<lparr>confirmed := True\<rparr>))"
proof -
  let ?key = "trackerKey vmi volume"
  from UpdateEphemeralVolumeCount_inv [OF assms(1), of now "Some vmi" "Some vm"]
  obtain volumes' where
    u: "UpdateEphemeralVolumeCount now (Some vmi) (Some vm) volumes = Inr volumes'"
    and i': "tracker_inv volumes'" by blast
  from assms(1) have d: "distinct (map fst volumes)" by (simp add: tracker_inv_def)
  have h: "map_of (after_hotplug now vmi vm volumes) ?key =
      (if now - timestamp status \<le>s 60 then None else Some status)"
    using after_hotplug_touched [OF assms(2) assms(3), of now vm volumes] assms(4) assms(5)
    by (simp add: hotplug_effect_def)
  have within: "map_of volumes' ?key = None \<and>
      (\<forall>calls.
         (\<forall>(now', vmi', vm')\<in>set calls. \<not> detects vmi' vm' ?key) \<longrightarrow>
         (\<exists>volumes''.
            run calls volumes' = Inr volumes'' \<and>
            map_of volumes'' ?key = None \<and>
            (three_part_keys volumes'' \<longrightarrow>
               \<not> reported (vmi_Namespace vmi) (vmi_Name vmi) (Name volume) volumes'')))"
    if le: "now - timestamp status \<le>s 60"
  proof -
    from h le have "map_of (after_hotplug now vmi vm volumes) ?key = None" by simp
    from UpdateEphemeralVolumeCount_absent [OF d u this]
    have gone: "map_of volumes' ?key = None" .
    have "\<exists>volumes''.
            run calls volumes' = Inr volumes'' \<and>
            map_of volumes'' ?key = None \<and>
            (three_part_keys volumes'' \<longrightarrow>
               \<not> reported (vmi_Namespace vmi) (vmi_Name vmi) (Name volume) volumes'')"
      if nd: "\<forall>(now', vmi', vm')\<in>set calls. \<not> detects vmi' vm' ?key" for calls
    proof -
      from no_detection_run [OF i' gone nd] obtain volumes'' where
        r: "run calls volumes' = Inr volumes''" and i'': "tracker_inv volumes''"
        and n: "map_of volumes'' ?key = None" by blast
      have "\<not> reported (vmi_Namespace vmi) (vmi_Name vmi) (Name volume) volumes''"
        if "three_part_keys volumes''"
        using not_reported [OF i'' that] n by (simp add: trackerKey_def)
      with r n show ?thesis by blast
    qed
    with gone show ?thesis by blast
  qed
  have beyond: "map_of volumes' ?key = Some (status\<lparr>confirmed := True\<rparr>)"
    if gt: "\<not> now - timestamp status \<le>s 60"
      and ns: "CHR ''/'' \<notin> set (vmi_Namespace vmi)"
      and nn: "CHR ''/'' \<notin> set (vmi_Name vmi)"
      and nv: "CHR ''/'' \<notin> set (Name volume)"
  proof -
    from h gt have h': "map_of (after_hotplug now vmi vm volumes) ?key = Some status" by simp
    have p: "parseVolumeKey ?key = Inr (vmi_Namespace vmi, vmi_Name vmi, Name volume)"
      by (rule parseVolumeKey_trackerKey [OF ns nn nv])
    have l: "live_hotplug vmi (Name volume)"
      using assms(2) assms(3) by (auto simp: live_hotplug_def)
    from UpdateEphemeralVolumeCount_kept [OF d u h' p l] sless_2_after_60 [OF gt]
    show ?thesis by simp
  qed
  from u within beyond show ?thesis by blast
qed

theorem grace_window_reclassification_witness:
  "tracker_inv [(''ns/a/v'', \<lparr>timestamp = 0, confirmed = False\<rparr>)] \<and>
   hotplugDataVolume ''v'' \<in> set (vmi_Volumes vmi_a) \<and>
   isHotplugVolume (hotplugDataVolume ''v'') \<and>
   Name (hotplugDataVolume ''v'') \<in> Name ` set (vm_Volumes vm_declared) \<and>
   map_of [(''ns/a/v'', \<lparr>timestamp = 0, confirmed = False\<rparr>)]
     (trackerKey vmi_a (hotplugDataVolume ''v'')) = Some \<lparr>timestamp = 0, confirmed = False\<rparr> \<and>
   (10::int64) - 0 \<le>s 60 \<and>
   UpdateEphemeralVolumeCount 10 (Some vmi_a) (Some vm_declared)
     [(''ns/a/v'', \<lparr>timestamp = 0, confirmed = False\<rparr>)] = Inr [] \<and>
   \<not> detects (Some vmi_b) (Some vm_undeclared) (trackerKey vmi_a (hotplugDataVolume ''v'')) \<and>
   \<not> detects (Some vmi_a) (Some vm_declared) (trackerKey vmi_a (hotplugDataVolume ''v'')) \<and>
   (\<exists>volumes''.
      run [(20, Some vmi_b, Some vm_undeclared), (30, Some vmi_a, Some vm_declared)] [] =
        Inr volumes'' \<and>
      map_of volumes'' (trackerKey vmi_a (hotplugDataVolume ''v'')) = None \<and>
      three_part_keys volumes'' \<and>
      \<not> reported ''ns'' ''a'' ''v'' volumes'') \<and>
   \<not> (100::int64) - 0 \<le>s 60 \<and>
   CHR ''/'' \<notin> set (vmi_Namespace vmi_a) \<and>
   CHR ''/'' \<notin> set (vmi_Name vmi_a) \<and>
   CHR ''/'' \<notin> set (Name (hotplugDataVolume ''v'')) \<and>
   (\<exists>volumes'.
      UpdateEphemeralVolumeCount 100 (Some vmi_a) (Some vm_declared)
        [(''ns/a/v'', \<lparr>timestamp = 0, confirmed = False\<rparr>)] = Inr volumes' \<and>
      map_of volumes' (trackerKey vmi_a (hotplugDataVolume ''v'')) =
        Some \<lparr>timestamp = 0, confirmed = True\<rparr>)"
proof -
  let ?t = "[(''ns/a/v'', \<lparr>timestamp = 0::int64, confirmed = False\<rparr>)]"
  let ?v = "hotplugDataVolume ''v''"
  let ?calls = "[(20::int64, Some vmi_b, Some vm_undeclared), (30, Some vmi_a, Some vm_declared)]"
  have 1: "tracker_inv ?t" by (simp add: tracker_inv_def parseVolumeKey_parts)
  have 2: "?v \<in> set (vmi_Volumes vmi_a)" by (simp add: vmi_a_def)
  have 3: "isHotplugVolume ?v" by (simp add: isHotplugVolume_def hotplugDataVolume_def)
  have 4: "Name ?v \<in> Name ` set (vm_Volumes vm_declared)" by (simp add: vm_declared_def)
  have 5: "map_of ?t (trackerKey vmi_a ?v) = Some \<lparr>timestamp = 0, confirmed = False\<rparr>"
    by (simp add: trackerKey_def vmi_a_def hotplugDataVolume_def)
  have 6: "CHR ''/'' \<notin> set (vmi_Namespace vmi_a)" by (simp add: vmi_a_def)
  have 7: "CHR ''/'' \<notin> set (vmi_Name vmi_a)" by (simp add: vmi_a_def)
  have 8: "CHR ''/'' \<notin> set (Name ?v)" by (simp add: hotplugDataVolume_def)
  have le: "(10::int64) - 0 \<le>s 60" by (simp add: word_sle_eq)
  have gt: "\<not> (100::int64) - 0 \<le>s 60" by (simp add: word_sle_eq)
  have u: "UpdateEphemeralVolumeCount 10 (Some vmi_a) (Some vm_declared) ?t = Inr []"
    by code_simp
  have nd1: "\<not> detects (Some vmi_b) (Some vm_undeclared) (trackerKey vmi_a ?v)"
    by (simp add: detects_def vmi_b_def)
  have nd2: "\<not> detects (Some vmi_a) (Some vm_declared) (trackerKey vmi_a ?v)"
    by (simp add: detects_def vmi_a_def vm_declared_def)
  have nd: "\<forall>(now', vmi', vm')\<in>set ?calls. \<not> detects vmi' vm' (trackerKey vmi_a ?v)"
    using nd1 nd2 by simp
  have r: "run ?calls [] = Inr []" by code_simp
  have tp: "three_part_keys []" by (simp add: three_part_keys_def)
  have names: "vmi_Namespace vmi_a = ''ns''" "vmi_Name vmi_a = ''a''" "Name ?v = ''v''"
    by (simp_all add: vmi_a_def hotplugDataVolume_def)
  from grace_window_reclassification [OF 1 2 3 4 5, of 10] u le
  have "\<forall>calls.
         (\<forall>(now', vmi', vm')\<in>set calls. \<not> detects vmi' vm' (trackerKey vmi_a ?v)) \<longrightarrow>
         (\<exists>volumes''.
            run calls [] = Inr volumes'' \<and>
            map_of volumes'' (trackerKey vmi_a ?v) = None \<and>
            (three_part_keys volumes'' \<longrightarrow> \<not> reported ''ns'' ''a'' ''v'' volumes''))"
    by (simp add: names)
  with nd have "\<exists>volumes''.
            run ?calls [] = Inr volumes'' \<and>
            map_of volumes'' (trackerKey vmi_a ?v) = None \<and>
            (three_part_keys volumes'' \<longrightarrow> \<not> reported ''ns'' ''a'' ''v'' volumes'')"
    by blast
  with r tp have a: "\<exists>volumes''.
      run ?calls [] = Inr volumes'' \<and>
      map_of volumes'' (trackerKey vmi_a ?v) = None \<and>
      three_part_keys volumes'' \<and>
      \<not> reported ''ns'' ''a'' ''v'' volumes''"
    by auto
  from grace_window_reclassification [OF 1 2 3 4 5, of 100] gt 6 7 8
  have b: "\<exists>volumes'.
      UpdateEphemeralVolumeCount 100 (Some vmi_a) (Some vm_declared) ?t = Inr volumes' \<and>
      map_of volumes' (trackerKey vmi_a ?v) = Some \<lparr>timestamp = 0, confirmed = True\<rparr>"
    by auto
  from 1 2 3 4 5 6 7 8 le gt u nd1 nd2 a b show ?thesis by blast
qed

theorem grace_window_counterexample:
  "UpdateEphemeralVolumeCount 100 (Some vmi_a) (Some vm_declared)
     [(''ns/a/v'', \<lparr>timestamp = 0, confirmed = False\<rparr>)] =
     Inr [(''ns/a/v'', \<lparr>timestamp = 0, confirmed = True\<rparr>)] \<and>
   UpdateEphemeralVolumeCount 10 (Some vmi_a) (Some vm_declared)
     [(''ns/a/v'', \<lparr>timestamp = 0, confirmed = False\<rparr>)] = Inr [] \<and>
   run [(20, Some vmi_a, Some vm_undeclared), (30, Some vmi_a, Some vm_undeclared)] [] =
     Inr [(''ns/a/v'', \<lparr>timestamp = 20, confirmed = True\<rparr>)] \<and>
   EphemeralVolumeMetricsCallback [(''ns/a/v'', \<lparr>timestamp = 20, confirmed = True\<rparr>)] =
     Inr ([(''ns/a/v'', \<lparr>timestamp = 20, confirmed = True\<rparr>)],
          [\<lparr>Metric = vmiEphemeralHotplugVolumeTotal, Labels = [''ns'', ''a'', ''v''], Value = 1\<rparr>])"
  by code_simp

text \<open>
  C4, as the code has it. When namespace, instance name and volume name hold no \<open>/\<close>,
  a call that finds a record for a live hotplug volume the template does not declare
  keeps the record and its timestamp: the timer is not reset. The record need not stay
  as it was: the same call sets \<open>confirmed\<close> once \<open>now - timestamp\<close> is above 2.
\<close>

theorem timer_not_reset:
  assumes "tracker_inv volumes"
    and "volume \<in> set (vmi_Volumes vmi)"
    and "isHotplugVolume volume"
    and "Name volume \<notin> Name ` set (vm_Volumes vm)"
    and "map_of volumes (trackerKey vmi volume) = Some status"
    and "CHR ''/'' \<notin> set (vmi_Namespace vmi)"
    and "CHR ''/'' \<notin> set (vmi_Name vmi)"
    and "CHR ''/'' \<notin> set (Name volume)"
  shows "\<exists>volumes'.
           UpdateEphemeralVolumeCount now (Some vmi) (Some vm) volumes = Inr volumes' \<and>
           map_of volumes' (trackerKey vmi volume) =
             Some (status\<lparr>confirmed := confirmed status \<or> 2 <s now - timestamp status\<rparr>)"
proof -
  let ?key = "trackerKey vmi volume"
  from UpdateEphemeralVolumeCount_inv [OF assms(1), of now "Some vmi" "Some vm"]
  obtain volumes' where
    u: "UpdateEphemeralVolumeCount now (Some vmi) (Some vm) volumes = Inr volumes'" by blast
  from assms(1) have d: "distinct (map fst volumes)" by (simp add: tracker_inv_def)
  have h: "map_of (after_hotplug now vmi vm volumes) ?key = Some status"
    using after_hotplug_touched [OF assms(2) assms(3), of now vm volumes] assms(4) assms(5)
    by (simp add: hotplug_effect_def)
  have p: "parseVolumeKey ?key = Inr (vmi_Namespace vmi, vmi_Name vmi, Name volume)"
    by (rule parseVolumeKey_trackerKey [OF assms(6) assms(7) assms(8)])
  have l: "live_hotplug vmi (Name volume)"
    using assms(2) assms(3) by (auto simp: live_hotplug_def)
  from UpdateEphemeralVolumeCount_kept [OF d u h p l]
  have "map_of volumes' ?key =
      Some (status\<lparr>confirmed := confirmed status \<or> 2 <s now - timestamp status\<rparr>)"
    by simp
  with u show ?thesis by blast
qed

theorem timer_not_reset_witness:
  "tracker_inv [(''ns/a/v'', \<lparr>timestamp = 0, confirmed = False\<rparr>)] \<and>
   hotplugDataVolume ''v'' \<in> set (vmi_Volumes vmi_a) \<and>
   isHotplugVolume (hotplugDataVolume ''v'') \<and>
   Name (hotplugDataVolume ''v'') \<notin> Name ` set (vm_Volumes vm_undeclared) \<and>
   map_of [(''ns/a/v'', \<lparr>timestamp = 0, confirmed = False\<rparr>)]
     (trackerKey vmi_a (hotplugDataVolume ''v'')) = Some \<lparr>timestamp = 0, confirmed = False\<rparr> \<and>
   CHR ''/'' \<notin> set (vmi_Namespace vmi_a) \<and>
   CHR ''/'' \<notin> set (vmi_Name vmi_a) \<and>
   CHR ''/'' \<notin> set (Name (hotplugDataVolume ''v'')) \<and>
   (\<exists>volumes'.
      UpdateEphemeralVolumeCount 10 (Some vmi_a) (Some vm_undeclared)
        [(''ns/a/v'', \<lparr>timestamp = 0, confirmed = False\<rparr>)] = Inr volumes' \<and>
      map_of volumes' (trackerKey vmi_a (hotplugDataVolume ''v'')) =
        Some \<lparr>timestamp = 0, confirmed = True\<rparr>)"
proof -
  let ?t = "[(''ns/a/v'', \<lparr>timestamp = 0::int64, confirmed = False\<rparr>)]"
  have 1: "tracker_inv ?t" by (simp add: tracker_inv_def parseVolumeKey_parts)
  have 2: "hotplugDataVolume ''v'' \<in> set (vmi_Volumes vmi_a)" by (simp add: vmi_a_def)
  have 3: "isHotplugVolume (hotplugDataVolume ''v'')"
    by (simp add: isHotplugVolume_def hotplugDataVolume_def)
  have 4: "Name (hotplugDataVolume ''v'') \<notin> Name ` set (vm_Volumes vm_undeclared)"
    by (simp add: vm_undeclared_def)
  have 5: "map_of ?t (trackerKey vmi_a (hotplugDataVolume ''v'')) =
      Some \<lparr>timestamp = 0, confirmed = False\<rparr>"
    by (simp add: trackerKey_def vmi_a_def hotplugDataVolume_def)
  have 6: "CHR ''/'' \<notin> set (vmi_Namespace vmi_a)" by (simp add: vmi_a_def)
  have 7: "CHR ''/'' \<notin> set (vmi_Name vmi_a)" by (simp add: vmi_a_def)
  have 8: "CHR ''/'' \<notin> set (Name (hotplugDataVolume ''v''))"
    by (simp add: hotplugDataVolume_def)
  have 9: "(2::int64) <s 10 - 0" by (simp add: word_sless_alt)
  from timer_not_reset [OF 1 2 3 4 5 6 7 8, of 10] 9
  have "\<exists>volumes'.
      UpdateEphemeralVolumeCount 10 (Some vmi_a) (Some vm_undeclared) ?t = Inr volumes' \<and>
      map_of volumes' (trackerKey vmi_a (hotplugDataVolume ''v'')) =
        Some \<lparr>timestamp = 0, confirmed = True\<rparr>"
    by simp
  with 1 2 3 4 5 6 7 8 show ?thesis by blast
qed

theorem record_changed_counterexample:
  "hotplugDataVolume ''v'' \<in> set (vmi_Volumes vmi_a) \<and>
   isHotplugVolume (hotplugDataVolume ''v'') \<and>
   Name (hotplugDataVolume ''v'') \<notin> Name ` set (vm_Volumes vm_undeclared) \<and>
   trackerKey vmi_a (hotplugDataVolume ''v'') = ''ns/a/v'' \<and>
   UpdateEphemeralVolumeCount 10 (Some vmi_a) (Some vm_undeclared)
     [(''ns/a/v'', \<lparr>timestamp = 0, confirmed = False\<rparr>)] =
     Inr [(''ns/a/v'', \<lparr>timestamp = 0, confirmed = True\<rparr>)]"
  by code_simp



text \<open>
  C6, as the code has it. SetVmiLaucherMemoryOverhead stores \<^verbatim>\<open>float64(X)\<close>, and
  GetVmiLaucherMemoryOverhead, with no later set for the same label pair, returns it
  with a nil error. For \<open>0 \<le> X \<le> 2 ^ 53\<close> this is \<open>X\<close> itself.
\<close>

theorem memory_overhead_round_trip:
  assumes "0 \<le> sint x" and "sint x \<le> 2 ^ 53"
    and "SetVmiLaucherMemoryOverhead (Some vmi) x vec0 = Inr vec1"
    and "set_calls others vec1 = Inr vec"
    and "\<forall>(vmi', y)\<in>set others. labels_of vmi' \<noteq> labels_of (Some vmi)"
  shows "GetVmiLaucherMemoryOverhead (Some vmi) vec = Inr (float64_of_int64 x, None) \<and>
         float64_of_int64 x = sint x"
  using set_then_get [OF assms(3) assms(4) assms(5)] float64_of_int64_exact [OF assms(1) assms(2)]
  by simp

theorem memory_overhead_round_trip_witness:
  "0 \<le> sint (1048576 :: int64) \<and> sint (1048576 :: int64) \<le> 2 ^ 53 \<and>
   SetVmiLaucherMemoryOverhead (Some vmi_a) 1048576 vmiLauncherMemoryOverhead =
     Inr (gauge_Set vmiLauncherMemoryOverhead ''ns'' ''a'' (float64_of_int64 1048576)) \<and>
   labels_of (Some vmi_b) \<noteq> labels_of (Some vmi_a) \<and>
   set_calls [(Some vmi_b, 7)]
     (gauge_Set vmiLauncherMemoryOverhead ''ns'' ''a'' (float64_of_int64 1048576)) =
     Inr (gauge_Set (gauge_Set vmiLauncherMemoryOverhead ''ns'' ''a'' (float64_of_int64 1048576))
            ''ns'' ''b'' (float64_of_int64 7)) \<and>
   GetVmiLaucherMemoryOverhead (Some vmi_a)
     (gauge_Set (gauge_Set vmiLauncherMemoryOverhead ''ns'' ''a'' (float64_of_int64 1048576))
        ''ns'' ''b'' (float64_of_int64 7)) =
     Inr (1048576, None)"
proof -
  let ?vec1 = "gauge_Set vmiLauncherMemoryOverhead ''ns'' ''a'' (float64_of_int64 1048576)"
  let ?vec = "gauge_Set ?vec1 ''ns'' ''b'' (float64_of_int64 7)"
  have 1: "0 \<le> sint (1048576 :: int64)" by simp
  have 2: "sint (1048576 :: int64) \<le> 2 ^ 53" by simp
  have 3: "SetVmiLaucherMemoryOverhead (Some vmi_a) 1048576 vmiLauncherMemoryOverhead = Inr ?vec1"
    by (simp add: SetVmiLaucherMemoryOverhead_def vmi_a_def)
  have 4: "set_calls [(Some vmi_b, 7)] ?vec1 = Inr ?vec"
    by (simp add: SetVmiLaucherMemoryOverhead_def vmi_b_def)
  have l: "labels_of (Some vmi_b) \<noteq> labels_of (Some vmi_a)"
    by (simp add: labels_of_def vmi_a_def vmi_b_def)
  then have 5: "\<forall>(vmi', y)\<in>set [(Some vmi_b, 7 :: int64)]. labels_of vmi' \<noteq> labels_of (Some vmi_a)"
    by simp
  from memory_overhead_round_trip [OF 1 2 3 4 5]
  have g: "GetVmiLaucherMemoryOverhead (Some vmi_a) ?vec = Inr (float64_of_int64 1048576, None)"
    and f: "float64_of_int64 1048576 = sint (1048576 :: int64)"
    by blast+
  have "sint (1048576 :: int64) = 1048576" by simp
  with f have "float64_of_int64 1048576 = 1048576" by (simp only:)
  with g have "GetVmiLaucherMemoryOverhead (Some vmi_a) ?vec = Inr (1048576, None)"
    by (simp only:)
  with 1 2 3 4 l show ?thesis by blast
qed

theorem memory_overhead_rounded_counterexample:
  "0 \<le> sint (9007199254740993 :: int64) \<and>
   sint (9007199254740993 :: int64) = 9007199254740993 \<and>
   SetVmiLaucherMemoryOverhead (Some vmi_a) 9007199254740993 vmiLauncherMemoryOverhead =
     Inr (gauge_Set vmiLauncherMemoryOverhead ''ns'' ''a'' 9007199254740992) \<and>
   GetVmiLaucherMemoryOverhead (Some vmi_a)
     (gauge_Set vmiLauncherMemoryOverhead ''ns'' ''a'' 9007199254740992) =
     Inr (9007199254740992, None)"
proof -
  have f: "float64_of_int64 9007199254740993 = 9007199254740992" by code_simp
  have s: "sint (9007199254740993 :: int64) = 9007199254740993" by simp
  have 1: "SetVmiLaucherMemoryOverhead (Some vmi_a) 9007199254740993 vmiLauncherMemoryOverhead =
      Inr (gauge_Set vmiLauncherMemoryOverhead ''ns'' ''a'' 9007199254740992)"
    by (simp add: SetVmiLaucherMemoryOverhead_def vmi_a_def f)
  have 2: "GetVmiLaucherMemoryOverhead (Some vmi_a)
      (gauge_Set vmiLauncherMemoryOverhead ''ns'' ''a'' 9007199254740992) =
      Inr (9007199254740992, None)"
    by (simp add: GetVmiLaucherMemoryOverhead_def gauge_Write_def gauge_Set_def vmi_a_def)
  from s 1 2 show ?thesis by simp
qed




text \<open>
  C8 is about callers that run at the same time under the lock of \<^verbatim>\<open>VolumeTracker\<close>.
  The functions of this theory are the calls run one at a time on the state they
  share; nothing is stated here about calls that overlap.
\<close>

text \<open>
  C9. For a namespace, an instance name and a volume name without \<open>/\<close>, the key that
  UpdateEphemeralVolumeCount builds (\<open>trackerKey\<close>) is taken apart by parseVolumeKey into
  exactly these three strings, and no other three such strings give the same key.
\<close>

theorem volume_key_round_trip:
  assumes "CHR ''/'' \<notin> set (vmi_Namespace vmi)"
    and "CHR ''/'' \<notin> set (vmi_Name vmi)"
    and "CHR ''/'' \<notin> set (Name volume)"
  shows "trackerKey vmi volume = vmi_Namespace vmi @ ''/'' @ vmi_Name vmi @ ''/'' @ Name volume \<and>
         parseVolumeKey (trackerKey vmi volume) =
           Inr (vmi_Namespace vmi, vmi_Name vmi, Name volume) \<and>
         (\<forall>vmi' volume'.
            CHR ''/'' \<notin> set (vmi_Namespace vmi') \<and> CHR ''/'' \<notin> set (vmi_Name vmi') \<and>
            CHR ''/'' \<notin> set (Name volume') \<and> trackerKey vmi' volume' = trackerKey vmi volume \<longrightarrow>
            vmi_Namespace vmi' = vmi_Namespace vmi \<and> vmi_Name vmi' = vmi_Name vmi \<and>
            Name volume' = Name volume)"
proof -
  have p: "parseVolumeKey (trackerKey vmi volume) =
      Inr (vmi_Namespace vmi, vmi_Name vmi, Name volume)"
    by (rule parseVolumeKey_trackerKey [OF assms])
  have k: "trackerKey vmi volume =
      vmi_Namespace vmi @ ''/'' @ vmi_Name vmi @ ''/'' @ Name volume"
    by (simp add: trackerKey_def)
  have u: "vmi_Namespace vmi' = vmi_Namespace vmi \<and> vmi_Name vmi' = vmi_Name vmi \<and>
      Name volume' = Name volume"
    if "CHR ''/'' \<notin> set (vmi_Namespace vmi')" "CHR ''/'' \<notin> set (vmi_Name vmi')"
      "CHR ''/'' \<notin> set (Name volume')" "trackerKey vmi' volume' = trackerKey vmi volume"
    for vmi' :: VirtualMachineInstance and volume'
    using parseVolumeKey_trackerKey [OF that(1) that(2) that(3)] that(4) p by simp
  from k p u show ?thesis by blast
qed

theorem volume_key_round_trip_witness:
  "CHR ''/'' \<notin> set ''ns'' \<and> CHR ''/'' \<notin> set ''a'' \<and> CHR ''/'' \<notin> set ''v'' \<and>
   trackerKey vmi_a (hotplugDataVolume ''v'') = ''ns/a/v'' \<and>
   parseVolumeKey ''ns/a/v'' = Inr (''ns'', ''a'', ''v'')"
  using volume_key_round_trip [of vmi_a "hotplugDataVolume ''v''"]
  by (simp add: vmi_a_def hotplugDataVolume_def trackerKey_def)

text \<open>
  C10, as the code has it. A key with fewer than three parts makes parseVolumeKey panic
  (index out of range). A key with more than three parts is not refused: the first three
  parts are returned and the others are dropped.
\<close>

theorem parseVolumeKey_malformed:
  "(length (strings_Split key (CHR ''/'')) < 3 \<longrightarrow> parseVolumeKey key = Inl IndexOutOfRange) \<and>
   (3 < length (strings_Split key (CHR ''/'')) \<longrightarrow>
      parseVolumeKey key =
        Inr (strings_Split key (CHR ''/'') ! 0, strings_Split key (CHR ''/'') ! 1,
             strings_Split key (CHR ''/'') ! 2))"
  by (auto simp: parseVolumeKey_parts split: list.splits)

theorem parseVolumeKey_malformed_witness:
  "length (strings_Split ''a/b'' (CHR ''/'')) < 3 \<and>
   parseVolumeKey ''a/b'' = Inl IndexOutOfRange \<and>
   3 < length (strings_Split ''a/b/c/d'' (CHR ''/'')) \<and>
   parseVolumeKey ''a/b/c/d'' = Inr (''a'', ''b'', ''c'')"
  using parseVolumeKey_malformed [of "''a/b''"] parseVolumeKey_malformed [of "''a/b/c/d''"]
  by simp

theorem parseVolumeKey_four_parts_counterexample:
  "strings_Split ''ns/a/v/extra'' (CHR ''/'') = [''ns'', ''a'', ''v'', ''extra''] \<and>
   parseVolumeKey ''ns/a/v/extra'' = Inr (''ns'', ''a'', ''v'')"
  by (simp add: parseVolumeKey_parts)

end
